theory Spec2Isabelle
  imports Complex_Main "HOL-Library.Multiset"
begin

section \<open>Python and NumPy primitives used by the simulator\<close>

text \<open>
  Python floats are modelled as real numbers: rounding, infinities and NaN are outside
  the model. Python integers are \<open>int\<close>. Exceptions are values of \<open>py_error\<close>, and a
  computation that may raise returns \<open>py_error + 'a\<close>. A \<open>ValueError\<close> carries its message,
  which the user interface displays.
\<close>

datatype py_error = is_ValueError: ValueError string | ZeroDivisionError | IndexError

fun ebind :: "'e + 'a \<Rightarrow> ('a \<Rightarrow> 'e + 'b) \<Rightarrow> 'e + 'b" where
  "ebind (Inl e) f = Inl e"
| "ebind (Inr x) f = f x"

text \<open>
  The ambient random source (the global state of \<open>np.random\<close>) is the stream of the
  standard-normal draws it will still deliver; drawing consumes a prefix of it.
\<close>

type_synonym rng = "nat \<Rightarrow> real"

definition rng_drop :: "nat \<Rightarrow> rng \<Rightarrow> rng" where
  "rng_drop n g = (\<lambda>k. g (n + k))"

text \<open>\<open>np.random.normal(0, 1, n)\<close>: an array of \<open>n\<close> draws; a negative size raises.\<close>

definition np_random_normal :: "int \<Rightarrow> rng \<Rightarrow> (py_error + real list) \<times> rng" where
  "np_random_normal n g =
     (if n < 0 then (Inl (ValueError ''negative dimensions are not allowed''), g)
      else (Inr (map g [0..<nat n]), rng_drop (nat n) g))"

text \<open>\<open>np.zeros(n)\<close>: negative dimensions are not allowed.\<close>

definition np_zeros :: "int \<Rightarrow> py_error + real list" where
  "np_zeros n =
     (if n < 0 then Inl (ValueError ''negative dimensions are not allowed'')
      else Inr (replicate (nat n) 0))"

text \<open>
  Indexing of a list or array by a Python integer: a negative index counts from the
  end, and an index outside the sequence raises \<open>IndexError\<close>.
\<close>

definition py_index :: "'a list \<Rightarrow> int \<Rightarrow> py_error + nat" where
  "py_index xs i =
     (if 0 \<le> i \<and> i < int (length xs) then Inr (nat i)
      else if i < 0 \<and> 0 \<le> i + int (length xs) then Inr (nat (i + int (length xs)))
      else Inl IndexError)"

definition py_get :: "'a list \<Rightarrow> int \<Rightarrow> py_error + 'a" where
  "py_get xs i = ebind (py_index xs i) (\<lambda>j. Inr (xs ! j))"

definition py_set :: "'a list \<Rightarrow> int \<Rightarrow> 'a \<Rightarrow> py_error + 'a list" where
  "py_set xs i x = ebind (py_index xs i) (\<lambda>j. Inr (xs[j := x]))"

text \<open>\<open>np.max\<close> and \<open>np.min\<close> of a list: an empty sequence raises \<open>ValueError\<close>.\<close>

definition np_max :: "real list \<Rightarrow> py_error + real" where
  "np_max xs =
     (if xs = [] then Inl (ValueError ''zero-size array to reduction operation maximum'')
      else Inr (Max (set xs)))"

definition np_min :: "real list \<Rightarrow> py_error + real" where
  "np_min xs =
     (if xs = [] then Inl (ValueError ''zero-size array to reduction operation minimum'')
      else Inr (Min (set xs)))"

text \<open>\<open>np.arange(1, T + 1)\<close>: the integers \<open>1, \<dots>, T\<close>, empty when \<open>T < 1\<close>.\<close>

definition np_arange1 :: "int \<Rightarrow> int list" where
  "np_arange1 T = [1..T]"

text \<open>
  Library functions of Python whose code is not part of the repository are taken as
  parameters: the string constructors \<open>int\<close>, \<open>float\<close> and \<open>Fraction\<close>, and
  \<open>np.random.seed\<close>, which replaces the ambient stream by the one the seed determines.
\<close>

record pylib =
  py_int :: "string \<Rightarrow> py_error + int"
  py_float :: "string \<Rightarrow> py_error + real"
  py_Fraction :: "string \<Rightarrow> py_error + rat"
  np_random_seed :: "int \<Rightarrow> py_error + rng"

section \<open>Daily bars: the state shared by both generators' loops\<close>

text \<open>
  \<open>S_arr\<close> is the array \<open>S\<close> of sub-step prices; the four \<open>*_prices\<close> lists collect one
  entry per completed day; \<open>day_prices\<close> holds the sub-step prices of the running day.
\<close>

record loop_state =
  S_arr :: "real list"
  day_prices :: "real list"
  open_prices :: "real list"
  close_prices :: "real list"
  high_prices :: "real list"
  low_prices :: "real list"

text \<open>
  The block \<open>if t % steps_per_day == 0: \<dots>\<close> that closes a day (gbm.py lines 38-49, with
  \<open>t\<close>; svm.py lines 83-94, with \<open>t + 1\<close>).
\<close>

definition end_of_day :: "int \<Rightarrow> int \<Rightarrow> loop_state \<Rightarrow> py_error + loop_state" where
  "end_of_day t steps_per_day st =
     (if steps_per_day = 0 then Inl ZeroDivisionError
      else if t mod steps_per_day = 0 then
        ebind (py_get (S_arr st) (t - steps_per_day)) (\<lambda>open_p.
        ebind (py_get (S_arr st) t) (\<lambda>close_p.
        ebind (np_max (day_prices st)) (\<lambda>high_p.
        ebind (np_min (day_prices st)) (\<lambda>low_p.
          Inr (st\<lparr>open_prices := open_prices st @ [open_p],
                   close_prices := close_prices st @ [close_p],
                   high_prices := high_prices st @ [high_p],
                   low_prices := low_prices st @ [low_p],
                   day_prices := []\<rparr>)))))
      else Inr st)"

text \<open>A generator returns the tuple \<open>(days, open, close, high, low)\<close>.\<close>

type_synonym price_path = "int list \<times> real list \<times> real list \<times> real list \<times> real list"

definition path_of :: "int \<Rightarrow> loop_state \<Rightarrow> price_path" where
  "path_of T st =
     (np_arange1 T, open_prices st, close_prices st, high_prices st, low_prices st)"

section \<open>models/gbm.py\<close>

text \<open>The body of the loop for one \<open>t\<close>, after \<open>Z\<close> has been drawn.\<close>

definition gbm_step ::
  "real \<Rightarrow> real \<Rightarrow> real \<Rightarrow> int \<Rightarrow> int \<Rightarrow> real \<Rightarrow> loop_state \<Rightarrow> py_error + loop_state" where
  "gbm_step mu sigma dt_intra steps_per_day t Z st =
     ebind (py_get (S_arr st) (t - 1)) (\<lambda>prev.
     ebind (py_set (S_arr st) t
              (prev * exp ((mu - 0.5 * sigma\<^sup>2) * dt_intra + sigma * sqrt dt_intra * Z))) (\<lambda>S1.
     ebind (py_get S1 t) (\<lambda>cur.
       end_of_day t steps_per_day
         (st\<lparr>S_arr := S1, day_prices := day_prices st @ [cur]\<rparr>))))"

text \<open>The loop \<open>for t in range(1, total_steps + 1)\<close>, one draw per iteration.\<close>

fun gbm_loop ::
  "real \<Rightarrow> real \<Rightarrow> real \<Rightarrow> int \<Rightarrow> int list \<Rightarrow> loop_state \<Rightarrow> rng
     \<Rightarrow> (py_error + loop_state) \<times> rng" where
  "gbm_loop mu sigma dt_intra steps_per_day [] st g = (Inr st, g)"
| "gbm_loop mu sigma dt_intra steps_per_day (t # ts) st g =
     (case gbm_step mu sigma dt_intra steps_per_day t (g 0) st of
        Inl e \<Rightarrow> (Inl e, rng_drop 1 g)
      | Inr st' \<Rightarrow> gbm_loop mu sigma dt_intra steps_per_day ts st' (rng_drop 1 g))"

definition init_state :: "real list \<Rightarrow> loop_state" where
  "init_state S0_arr =
     \<lparr>S_arr = S0_arr, day_prices = [], open_prices = [], close_prices = [],
      high_prices = [], low_prices = []\<rparr>"

text \<open>
  \<open>dt / steps_per_day\<close> divides a Python float by an integer and raises
  \<open>ZeroDivisionError\<close> when \<open>steps_per_day\<close> is 0.
\<close>

definition gbm_run ::
  "int \<Rightarrow> real \<Rightarrow> real \<Rightarrow> real \<Rightarrow> real \<Rightarrow> int \<Rightarrow> rng \<Rightarrow> (py_error + loop_state) \<times> rng" where
  "gbm_run T dt S0 mu sigma steps_per_day g =
     (let total_steps = T * steps_per_day in
      if steps_per_day = 0 then (Inl ZeroDivisionError, g)
      else
        let dt_intra = dt / real_of_int steps_per_day in
        case ebind (np_zeros (total_steps + 1)) (\<lambda>Z0. py_set Z0 0 S0) of
          Inl e \<Rightarrow> (Inl e, g)
        | Inr S0_arr \<Rightarrow>
            gbm_loop mu sigma dt_intra steps_per_day [1..total_steps] (init_state S0_arr) g)"

definition generate_gbm_prices ::
  "pylib \<Rightarrow> int \<Rightarrow> real \<Rightarrow> real \<Rightarrow> real \<Rightarrow> real \<Rightarrow> int \<Rightarrow> int option \<Rightarrow> rng
     \<Rightarrow> (py_error + price_path) \<times> rng" where
  "generate_gbm_prices L T dt S0 mu sigma steps_per_day seed g =
     (case (case seed of None \<Rightarrow> Inr g | Some s \<Rightarrow> np_random_seed L s) of
        Inl e \<Rightarrow> (Inl e, g)
      | Inr g1 \<Rightarrow>
          (case gbm_run T dt S0 mu sigma steps_per_day g1 of
             (Inl e, g2) \<Rightarrow> (Inl e, g2)
           | (Inr st, g2) \<Rightarrow> (Inr (path_of T st), g2)))"

section \<open>models/svm.py\<close>

text \<open>The arguments of \<open>generate_svm_prices\<close>; an optional argument is \<open>None\<close> when absent.\<close>

record svm_args =
  T :: int
  dt :: real
  S0 :: real
  v0 :: real
  kappa :: real
  theta :: real
  sigma_v :: real
  rho :: real
  mu :: real
  bubble_start :: "int option"
  bubble_end :: "int option"
  bubble_mu_extra :: "real option"
  crash_day :: "int option"
  crash_factor :: "real option"
  steps_per_day :: int
  seed :: "int option"

text \<open>The loop state: the bar state and the variance array \<open>v\<close>.\<close>

type_synonym svm_state = "loop_state \<times> real list"

text \<open>Lines 52-59: the drift of sub-step \<open>t\<close>.\<close>

definition drift_today :: "svm_args \<Rightarrow> int \<Rightarrow> real" where
  "drift_today a t =
     (let day = t div steps_per_day a + 1 in
      if bubble_start a \<noteq> None \<and> bubble_end a \<noteq> None \<and> bubble_mu_extra a \<noteq> None
         \<and> the (bubble_start a) \<le> day \<and> day \<le> the (bubble_end a)
      then mu a + the (bubble_mu_extra a)
      else mu a)"

text \<open>Lines 61-67: the Euler step of the variance and its floor at zero.\<close>

definition update_variance ::
  "svm_args \<Rightarrow> real \<Rightarrow> real list \<Rightarrow> int \<Rightarrow> real list \<Rightarrow> py_error + real list" where
  "update_variance a dt_intra Z2 t v =
     ebind (py_get v t) (\<lambda>vt.
     ebind (py_get Z2 t) (\<lambda>z2.
     ebind (py_set v (t + 1)
              (vt + kappa a * (theta a - vt) * dt_intra
                  + sigma_v a * sqrt (max vt 0 * dt_intra) * z2)) (\<lambda>v1.
     ebind (py_get v1 (t + 1)) (\<lambda>vn.
       if vn < 0 then py_set v1 (t + 1) 0 else Inr v1))))"

text \<open>Lines 69-74: the log-Euler step of the price, appended to the day's prices.\<close>

definition update_price ::
  "svm_args \<Rightarrow> real \<Rightarrow> real list \<Rightarrow> int \<Rightarrow> real list \<Rightarrow> loop_state \<Rightarrow> py_error + loop_state" where
  "update_price a dt_intra Z1 t v st =
     ebind (py_get (S_arr st) t) (\<lambda>St.
     ebind (py_get v t) (\<lambda>vt.
     ebind (py_get Z1 t) (\<lambda>z1.
     ebind (py_set (S_arr st) (t + 1)
              (St * exp ((drift_today a t - 0.5 * vt) * dt_intra
                         + sqrt (max vt 0 * dt_intra) * z1))) (\<lambda>S1.
     ebind (py_get S1 (t + 1)) (\<lambda>cur.
       Inr (st\<lparr>S_arr := S1, day_prices := day_prices st @ [cur]\<rparr>))))))"

text \<open>Lines 76-80: the crash event.\<close>

definition crash_event :: "svm_args \<Rightarrow> int \<Rightarrow> loop_state \<Rightarrow> py_error + loop_state" where
  "crash_event a t st =
     (if crash_day a \<noteq> None \<and> crash_factor a \<noteq> None then
        if t + 1 = the (crash_day a) * steps_per_day a then
          ebind (py_get (S_arr st) (t + 1)) (\<lambda>cur.
          ebind (py_set (S_arr st) (t + 1) (cur * the (crash_factor a))) (\<lambda>S1.
          ebind (py_get S1 (t + 1)) (\<lambda>adj.
          ebind (py_set (day_prices st) (- 1) adj) (\<lambda>dp.
            Inr (st\<lparr>S_arr := S1, day_prices := dp\<rparr>)))))
        else Inr st
      else Inr st)"

text \<open>The body of the loop for one \<open>t\<close>. \<open>t // 0\<close> raises \<open>ZeroDivisionError\<close>.\<close>

definition svm_step ::
  "svm_args \<Rightarrow> real \<Rightarrow> real list \<Rightarrow> real list \<Rightarrow> int \<Rightarrow> svm_state \<Rightarrow> py_error + svm_state" where
  "svm_step a dt_intra Z1 Z2 t sv =
     (case sv of (st, v) \<Rightarrow>
        if steps_per_day a = 0 then Inl ZeroDivisionError
        else
          ebind (update_variance a dt_intra Z2 t v) (\<lambda>v'.
          ebind (update_price a dt_intra Z1 t v' st) (\<lambda>st1.
          ebind (crash_event a t st1) (\<lambda>st2.
          ebind (end_of_day (t + 1) (steps_per_day a) st2) (\<lambda>st3.
            Inr (st3, v'))))))"

text \<open>The loop \<open>for t in range(total_steps)\<close>.\<close>

fun svm_loop ::
  "svm_args \<Rightarrow> real \<Rightarrow> real list \<Rightarrow> real list \<Rightarrow> int list \<Rightarrow> svm_state \<Rightarrow> py_error + svm_state" where
  "svm_loop a dt_intra Z1 Z2 [] sv = Inr sv"
| "svm_loop a dt_intra Z1 Z2 (t # ts) sv =
     ebind (svm_step a dt_intra Z1 Z2 t sv) (svm_loop a dt_intra Z1 Z2 ts)"

text \<open>
  Everything up to the end of the loop; the result is the final loop state, of which
  \<open>generate_svm_prices\<close> returns the bars. The two arrays of draws are taken before the
  loop, \<open>eps1\<close> first.
\<close>

definition svm_run :: "svm_args \<Rightarrow> rng \<Rightarrow> (py_error + svm_state) \<times> rng" where
  "svm_run a g =
     (let total_steps = T a * steps_per_day a in
      if steps_per_day a = 0 then (Inl ZeroDivisionError, g)
      else
        let dt_intra = dt a / real_of_int (steps_per_day a) in
        case ebind (np_zeros (total_steps + 1)) (\<lambda>S. 
             ebind (np_zeros (total_steps + 1)) (\<lambda>v.
             ebind (py_set S 0 (S0 a)) (\<lambda>S'.
             ebind (py_set v 0 (v0 a)) (\<lambda>v'. Inr (S', v'))))) of
          Inl e \<Rightarrow> (Inl e, g)
        | Inr (S', v') \<Rightarrow>
            (case np_random_normal total_steps g of
               (Inl e, g1) \<Rightarrow> (Inl e, g1)
             | (Inr eps1, g1) \<Rightarrow>
                 (case np_random_normal total_steps g1 of
                    (Inl e, g2) \<Rightarrow> (Inl e, g2)
                  | (Inr eps2, g2) \<Rightarrow>
                      let Z1 = eps1;
                          Z2 = map2 (\<lambda>e1 e2. rho a * e1 + sqrt (1 - (rho a)\<^sup>2) * e2) eps1 eps2
                      in (svm_loop a dt_intra Z1 Z2 [0..total_steps - 1] (init_state S', v'),
                          g2))))"

definition generate_svm_prices ::
  "pylib \<Rightarrow> svm_args \<Rightarrow> rng \<Rightarrow> (py_error + price_path) \<times> rng" where
  "generate_svm_prices L a g =
     (case (case seed a of None \<Rightarrow> Inr g | Some s \<Rightarrow> np_random_seed L s) of
        Inl e \<Rightarrow> (Inl e, g)
      | Inr g1 \<Rightarrow>
          (case svm_run a g1 of
             (Inl e, g2) \<Rightarrow> (Inl e, g2)
           | (Inr (st, v), g2) \<Rightarrow> (Inr (path_of (T a) st), g2)))"

section \<open>ui/util.py\<close>

text \<open>The message of the \<open>ValueError\<close> that \<open>parse_float\<close> raises for \<open>value_str\<close>.\<close>

definition invalid_format_msg :: "string \<Rightarrow> string" where
  "invalid_format_msg value_str =
     ''Invalid parameter format: '' @ [CHR 0x27] @ value_str @ [CHR 0x27]
       @ ''. Expected a number or a fraction like '1/365'.''"

text \<open>
  \<open>parse_float\<close>: \<open>float(Fraction(value_str))\<close> first; when that raises \<open>ValueError\<close> or
  \<open>ZeroDivisionError\<close>, \<open>float(value_str)\<close>; when that raises \<open>ValueError\<close>, a
  \<open>ValueError\<close> with the message above. Any other exception propagates.
\<close>

definition parse_float :: "pylib \<Rightarrow> string \<Rightarrow> py_error + real" where
  "parse_float L value_str =
     (case py_Fraction L value_str of
        Inr q \<Rightarrow> Inr (real_of_rat q)
      | Inl e \<Rightarrow>
          if is_ValueError e \<or> e = ZeroDivisionError then
            (case py_float L value_str of
               Inr x \<Rightarrow> Inr x
             | Inl e' \<Rightarrow>
                 if is_ValueError e' then Inl (ValueError (invalid_format_msg value_str))
                 else Inl e')
          else Inl e)"

section \<open>ui/simulator_ui.py: \<open>run_simulation\<close>\<close>

text \<open>
  The dictionary that \<open>get_configuration()\<close> returns for an interval: the texts of the
  start, end and model fields and of the parameter entries, as the form holds them.
\<close>

record interval_cfg =
  cfg_start :: string
  cfg_end :: string
  cfg_model :: string
  cfg_params :: "string \<rightharpoonup> string"

text \<open>\<open>params.get(key, default)\<close>.\<close>

definition params_get :: "(string \<rightharpoonup> string) \<Rightarrow> string \<Rightarrow> string \<Rightarrow> string" where
  "params_get params key dflt = (case params key of None \<Rightarrow> dflt | Some s \<Rightarrow> s)"

text \<open>The five arrays stored in \<open>self.simulation_results\<close>.\<close>

record series =
  Day :: "int list"
  Open :: "real list"
  Close :: "real list"
  High :: "real list"
  Low :: "real list"

text \<open>
  The state of the application object that \<open>run_simulation\<close> reads and writes;
  \<open>simulation_results\<close> is \<open>None\<close> while it is the empty dictionary.
\<close>

record gui =
  model_intervals :: "interval_cfg list"
  simulation_results :: "series option"

text \<open>
  The calls of \<open>messagebox.showerror\<close>, one constructor per call site, with the interval
  number and the text that the message interpolates:
  \<^item> \<open>StartDayError idx\<close>: title "Error", "Interval idx: Start day must be < End day.";
  \<^item> \<open>IntLiteralError msg\<close>: title "Error", the message of the \<open>ValueError\<close> of \<open>int\<close>;
  \<^item> \<open>IntervalLengthError i\<close>: title "Interval Error", "Interval i has invalid length.";
  \<^item> \<open>ModelError i model\<close>: title "Model Error", "Interval i: Unknown model 'model'";
  \<^item> \<open>ParameterError i msg\<close>: title "Parameter Error", "Interval i: msg".
\<close>

datatype dialog =
    StartDayError nat
  | IntLiteralError string
  | IntervalLengthError nat
  | ModelError nat string
  | ParameterError nat string

text \<open>
  How a run ends: with the plot of the closes against the days, with an error dialog,
  or with an exception that no handler of \<open>run_simulation\<close> catches.
\<close>

datatype outcome = Plot "int list" "real list" | ShowError dialog | Raised py_error

text \<open>
  Lines 55-69: the first loop, which validates every interval before anything else
  runs. The \<open>ValueError\<close> raised for \<open>start_day >= end_day\<close> and the one of \<open>int\<close> are
  caught by the same handler, which shows the message and returns.
\<close>

fun collect_intervals :: "pylib \<Rightarrow> nat \<Rightarrow> interval_cfg list \<Rightarrow> outcome + interval_cfg list" where
  "collect_intervals L idx [] = Inr []"
| "collect_intervals L idx (cfg # rest) =
     (case ebind (py_int L (cfg_start cfg)) (\<lambda>start_day.
           ebind (py_int L (cfg_end cfg)) (\<lambda>end_day. Inr (start_day, end_day))) of
        Inl (ValueError msg) \<Rightarrow> Inl (ShowError (IntLiteralError msg))
      | Inl e \<Rightarrow> Inl (Raised e)
      | Inr (start_day, end_day) \<Rightarrow>
          if start_day \<ge> end_day then Inl (ShowError (StartDayError idx))
          else (case collect_intervals L (Suc idx) rest of
                  Inl out \<Rightarrow> Inl out
                | Inr interval_configs \<Rightarrow> Inr (cfg # interval_configs)))"

text \<open>
  Line 72: \<open>interval_configs.sort(key=lambda c: int(c["start"]))\<close>. The keys are computed
  first, outside any handler; the sort is stable.
\<close>

fun sort_keys :: "pylib \<Rightarrow> interval_cfg list \<Rightarrow> py_error + int list" where
  "sort_keys L [] = Inr []"
| "sort_keys L (c # cs) =
     ebind (py_int L (cfg_start c)) (\<lambda>k. ebind (sort_keys L cs) (\<lambda>ks. Inr (k # ks)))"

definition sort_intervals :: "pylib \<Rightarrow> interval_cfg list \<Rightarrow> py_error + interval_cfg list" where
  "sort_intervals L interval_configs =
     ebind (sort_keys L interval_configs) (\<lambda>ks.
       Inr (map snd (sort_key fst (zip ks interval_configs))))"

text \<open>The generator call that the body of the second loop ends with.\<close>

datatype generator_call = CallGBM int real real real real | CallSVM svm_args

definition run_call :: "pylib \<Rightarrow> generator_call \<Rightarrow> rng \<Rightarrow> (py_error + price_path) \<times> rng" where
  "run_call L c g =
     (case c of
        CallGBM T' dt' S0' mu' sigma' \<Rightarrow> generate_gbm_prices L T' dt' S0' mu' sigma' 4 None g
      | CallSVM a \<Rightarrow> generate_svm_prices L a g)"

definition bubble_extra_key :: string where
  "bubble_extra_key = ''Bubble Extra Drift ('' @ [CHR 0xCE, CHR 0x94] @ ''mu)''"

text \<open>
  Lines 88-139, up to the generator call: the arguments are read in the order of the
  source. The result is the exception raised, or the dialog of an early return, or the
  interval length \<open>T\<close> with the call to make.
\<close>

definition gbm_arguments ::
  "pylib \<Rightarrow> (string \<rightharpoonup> string) \<Rightarrow> real option \<Rightarrow> int \<Rightarrow> real \<Rightarrow> py_error + generator_call" where
  "gbm_arguments L params last_price T' dt' =
     ebind (case last_price of
              Some p \<Rightarrow> Inr p
            | None \<Rightarrow> py_float L (params_get params ''Initial Stock Price (S0)'' ''100'')) (\<lambda>S0'.
     ebind (parse_float L (params_get params ''Drift (mu)'' ''0.15'')) (\<lambda>mu'.
     ebind (parse_float L (params_get params ''Volatility (sigma)'' ''0.05'')) (\<lambda>sigma'.
       Inr (CallGBM T' dt' S0' mu' sigma'))))"

definition svm_arguments ::
  "pylib \<Rightarrow> (string \<rightharpoonup> string) \<Rightarrow> real option \<Rightarrow> int \<Rightarrow> real \<Rightarrow> py_error + generator_call" where
  "svm_arguments L params last_price T' dt' =
     ebind (case last_price of
              Some p \<Rightarrow> Inr p
            | None \<Rightarrow> py_float L (params_get params ''Initial Stock Price (S0)'' ''100'')) (\<lambda>S0'.
     ebind (parse_float L (params_get params ''Initial Variance (v0)'' ''0.04'')) (\<lambda>v0'.
     ebind (parse_float L (params_get params ''Mean Reversion Speed (kappa)'' ''3.0'')) (\<lambda>kappa'.
     ebind (parse_float L (params_get params ''Long-term Mean Var (theta)'' ''0.04'')) (\<lambda>theta'.
     ebind (parse_float L (params_get params ''Vol of Vol (sigma)'' ''0.6'')) (\<lambda>sigma_v'.
     ebind (parse_float L (params_get params ''Correlation (rho)'' ''-0.7'')) (\<lambda>rho'.
     ebind (parse_float L (params_get params ''Base Drift (mu)'' ''0.05'')) (\<lambda>mu'.
     ebind (py_int L (params_get params ''Bubble Start'' ''0'')) (\<lambda>bubble_start'.
     ebind (py_int L (params_get params ''Bubble End'' ''0'')) (\<lambda>bubble_end'.
     ebind (case params bubble_extra_key of
              Some s \<Rightarrow> map_sum id Some (parse_float L s)
            | None \<Rightarrow> Inr None) (\<lambda>bubble_mu_extra'.
     ebind (case params ''Crash Day'' of
              Some s \<Rightarrow> py_int L s
            | None \<Rightarrow> Inr bubble_end') (\<lambda>crash_day'.
     ebind (case params ''Crash Factor'' of
              Some s \<Rightarrow> map_sum id Some (parse_float L s)
            | None \<Rightarrow> Inr None) (\<lambda>crash_factor'.
       Inr (CallSVM \<lparr>T = T', dt = dt', S0 = S0', v0 = v0', kappa = kappa', theta = theta',
                     sigma_v = sigma_v', rho = rho', mu = mu',
                     bubble_start = Some bubble_start', bubble_end = Some bubble_end',
                     bubble_mu_extra = bubble_mu_extra',
                     crash_day = Some crash_day', crash_factor = crash_factor',
                     steps_per_day = 4, seed = None\<rparr>)))))))))))))"

definition interval_call ::
  "pylib \<Rightarrow> nat \<Rightarrow> interval_cfg \<Rightarrow> real option \<Rightarrow> py_error + (dialog + int \<times> generator_call)" where
  "interval_call L i icfg last_price =
     (let model = cfg_model icfg; params = cfg_params icfg in
      ebind (py_int L (cfg_start icfg)) (\<lambda>start_day.
      ebind (py_int L (cfg_end icfg)) (\<lambda>end_day.
        let T' = end_day - start_day in
        if T' \<le> 0 then Inr (Inl (IntervalLengthError i))
        else
          ebind (parse_float L (params_get params ''Time Step (dt)'' ''1/365'')) (\<lambda>dt'.
            if model = ''Geometric Brownian Motion (GBM)'' then
              ebind (gbm_arguments L params last_price T' dt') (\<lambda>c. Inr (Inr (T', c)))
            else if model = ''Stochastic Volatility Model (Heston)'' then
              ebind (svm_arguments L params last_price T' dt') (\<lambda>c. Inr (Inr (T', c)))
            else Inr (Inl (ModelError i model))))))"

text \<open>The accumulators of the second loop.\<close>

record chain_state =
  overall_days :: "int list"
  overall_open :: "real list"
  overall_close :: "real list"
  overall_high :: "real list"
  overall_low :: "real list"
  last_price :: "real option"
  current_offset :: int

text \<open>
  Lines 84-157: one iteration. The handler of the \<open>try\<close> block turns a \<open>ValueError\<close> of
  the argument parsing or of the generator into a "Parameter Error" dialog; any other
  exception propagates. \<open>close_p[-1]\<close> is outside the \<open>try\<close> block.
\<close>

definition chain_step ::
  "pylib \<Rightarrow> nat \<Rightarrow> interval_cfg \<Rightarrow> chain_state \<Rightarrow> rng \<Rightarrow> (outcome + chain_state) \<times> rng" where
  "chain_step L i icfg cs g =
     (case interval_call L i icfg (last_price cs) of
        Inl (ValueError msg) \<Rightarrow> (Inl (ShowError (ParameterError i msg)), g)
      | Inl e \<Rightarrow> (Inl (Raised e), g)
      | Inr (Inl d) \<Rightarrow> (Inl (ShowError d), g)
      | Inr (Inr (T', c)) \<Rightarrow>
          (case run_call L c g of
             (Inl (ValueError msg), g') \<Rightarrow> (Inl (ShowError (ParameterError i msg)), g')
           | (Inl e, g') \<Rightarrow> (Inl (Raised e), g')
           | (Inr (days, open_p, close_p, high_p, low_p), g') \<Rightarrow>
               (case py_get close_p (- 1) of
                  Inl e \<Rightarrow> (Inl (Raised e), g')
                | Inr last_close \<Rightarrow>
                    (Inr (cs\<lparr>overall_days := overall_days cs @ map (\<lambda>d. d + current_offset cs) days,
                              overall_open := overall_open cs @ open_p,
                              overall_close := overall_close cs @ close_p,
                              overall_high := overall_high cs @ high_p,
                              overall_low := overall_low cs @ low_p,
                              last_price := Some last_close,
                              current_offset := current_offset cs + T'\<rparr>), g'))))"

fun chain :: "pylib \<Rightarrow> nat \<Rightarrow> interval_cfg list \<Rightarrow> chain_state \<Rightarrow> rng \<Rightarrow> (outcome + chain_state) \<times> rng" where
  "chain L i [] cs g = (Inr cs, g)"
| "chain L i (icfg # rest) cs g =
     (case chain_step L i icfg cs g of
        (Inl out, g') \<Rightarrow> (Inl out, g')
      | (Inr cs', g') \<Rightarrow> chain L (Suc i) rest cs' g')"

definition chain_init :: chain_state where
  "chain_init = \<lparr>overall_days = [], overall_open = [], overall_close = [], overall_high = [],
                 overall_low = [], last_price = None, current_offset = 0\<rparr>"

text \<open>
  \<open>run_simulation\<close>: the outcome, the application object and the random source after the
  run. Only a run that reaches the end stores results and plots.
\<close>

definition run_simulation :: "pylib \<Rightarrow> gui \<Rightarrow> rng \<Rightarrow> outcome \<times> gui \<times> rng" where
  "run_simulation L self g =
     (case collect_intervals L 1 (model_intervals self) of
        Inl out \<Rightarrow> (out, self, g)
      | Inr interval_configs \<Rightarrow>
          (case sort_intervals L interval_configs of
             Inl e \<Rightarrow> (Raised e, self, g)
           | Inr sorted_configs \<Rightarrow>
               (case chain L 1 sorted_configs chain_init g of
                  (Inl out, g') \<Rightarrow> (out, self, g')
                | (Inr cs, g') \<Rightarrow>
                    (Plot (overall_days cs) (overall_close cs),
                     self\<lparr>simulation_results :=
                            Some \<lparr>Day = overall_days cs, Open = overall_open cs,
                                  Close = overall_close cs, High = overall_high cs,
                                  Low = overall_low cs\<rparr>\<rparr>,
                     g'))))"

section \<open>The Python constructors on plain literals\<close>

text \<open>
  A library to run the model on concrete inputs. It reads the literals
  \<open>[+-]digits\<close> (for \<open>int\<close>), \<open>[+-]digits[.digits]\<close> (for \<open>float\<close> and \<open>Fraction\<close>) and
  \<open>[+-]digits/digits\<close> (for \<open>Fraction\<close>) as Python does. Every other string is rejected
  with a \<open>ValueError\<close>, although Python accepts a few more forms (exponents, underscores,
  surrounding blanks, \<open>inf\<close>, \<open>nan\<close>). The stream that a seed determines is not modelled:
  \<open>np.random.seed\<close> delivers the constant stream 0 here.
\<close>

definition digit_of :: "char \<Rightarrow> nat option" where
  "digit_of =
     map_of [(CHR ''0'', 0), (CHR ''1'', 1), (CHR ''2'', 2), (CHR ''3'', 3), (CHR ''4'', 4),
             (CHR ''5'', 5), (CHR ''6'', 6), (CHR ''7'', 7), (CHR ''8'', 8), (CHR ''9'', 9)]"

fun digits_value :: "nat \<Rightarrow> string \<Rightarrow> nat option" where
  "digits_value acc [] = Some acc"
| "digits_value acc (c # cs) =
     (case digit_of c of None \<Rightarrow> None | Some d \<Rightarrow> digits_value (10 * acc + d) cs)"

definition nat_literal :: "string \<Rightarrow> nat option" where
  "nat_literal s = (if s = [] then None else digits_value 0 s)"

fun split_sign :: "string \<Rightarrow> int \<times> string" where
  "split_sign [] = (1, [])"
| "split_sign (c # cs) =
     (if c = CHR ''-'' then (- 1, cs) else if c = CHR ''+'' then (1, cs) else (1, c # cs))"

definition int_literal :: "string \<Rightarrow> int option" where
  "int_literal s = (case split_sign s of (sg, r) \<Rightarrow> map_option (\<lambda>n. sg * int n) (nat_literal r))"

definition decimal_literal :: "string \<Rightarrow> rat option" where
  "decimal_literal s =
     (let ip = takeWhile (\<lambda>c. c \<noteq> CHR ''.'') s; rest = dropWhile (\<lambda>c. c \<noteq> CHR ''.'') s in
      case rest of
        [] \<Rightarrow> map_option of_nat (nat_literal ip)
      | _ # fp \<Rightarrow>
          if ip = [] \<and> fp = [] then None
          else (case (digits_value 0 ip, digits_value 0 fp) of
                  (Some i, Some f) \<Rightarrow> Some (of_nat i + of_nat f / 10 ^ length fp)
                | _ \<Rightarrow> None))"

definition quoted :: "string \<Rightarrow> string" where
  "quoted s = [CHR 0x27] @ s @ [CHR 0x27]"

definition literal_int :: "string \<Rightarrow> py_error + int" where
  "literal_int s =
     (case int_literal s of
        Some n \<Rightarrow> Inr n
      | None \<Rightarrow> Inl (ValueError (''invalid literal for int() with base 10: '' @ quoted s)))"

definition literal_float :: "string \<Rightarrow> py_error + real" where
  "literal_float s =
     (case split_sign s of (sg, r) \<Rightarrow>
        (case decimal_literal r of
           Some q \<Rightarrow> Inr (real_of_int sg * real_of_rat q)
         | None \<Rightarrow> Inl (ValueError (''could not convert string to float: '' @ quoted s))))"

definition literal_Fraction :: "string \<Rightarrow> py_error + rat" where
  "literal_Fraction s =
     (case split_sign s of (sg, r) \<Rightarrow>
        (let num = takeWhile (\<lambda>c. c \<noteq> CHR ''/'') r; rest = dropWhile (\<lambda>c. c \<noteq> CHR ''/'') r in
         case rest of
           [] \<Rightarrow>
             (case decimal_literal r of
                Some q \<Rightarrow> Inr (of_int sg * q)
              | None \<Rightarrow> Inl (ValueError (''Invalid literal for Fraction: '' @ quoted s)))
         | _ # den \<Rightarrow>
             (case (nat_literal num, nat_literal den) of
                (Some n, Some d) \<Rightarrow>
                  if d = 0 then Inl ZeroDivisionError
                  else Inr (of_int sg * (of_nat n / of_nat d))
              | _ \<Rightarrow> Inl (ValueError (''Invalid literal for Fraction: '' @ quoted s)))))"

definition plain_python :: pylib where
  "plain_python =
     \<lparr>py_int = literal_int, py_float = literal_float, py_Fraction = literal_Fraction,
      np_random_seed = (\<lambda>s. if 0 \<le> s \<and> s < 2 ^ 32 then Inr (\<lambda>_. 0)
                            else Inl (ValueError ''Seed must be between 0 and 2**32 - 1''))\<rparr>"

section \<open>Notions used to state the properties\<close>

subsection \<open>The bars in terms of the price array\<close>

text \<open>
  Writing price \<open>y\<close> at index \<open>i\<close> of \<open>S\<close> and appending it to the day's prices: the net
  effect of one sub-step on the bar state, before the day is closed.
\<close>

definition push :: "nat \<Rightarrow> real \<Rightarrow> loop_state \<Rightarrow> loop_state" where
  "push i y st = st\<lparr>S_arr := (S_arr st)[i := y], day_prices := day_prices st @ [y]\<rparr>"

text \<open>The sub-step prices of day \<open>d\<close> (counted from 0) with \<open>p\<close> sub-steps per day.\<close>

definition day_slice :: "real list \<Rightarrow> nat \<Rightarrow> nat \<Rightarrow> real list" where
  "day_slice xs p d = map (\<lambda>j. xs ! (d * p + Suc j)) [0..<p]"

text \<open>
  The loop invariant after \<open>k\<close> of \<open>n\<close> sub-steps: every bar recorded so far is read off
  the price array, and \<open>day_prices\<close> holds the prices of the running day.
\<close>

definition bar_inv :: "nat \<Rightarrow> nat \<Rightarrow> nat \<Rightarrow> loop_state \<Rightarrow> bool" where
  "bar_inv n p k st \<longleftrightarrow>
     length (S_arr st) = Suc n \<and>
     open_prices st = map (\<lambda>d. S_arr st ! (d * p)) [0..<k div p] \<and>
     close_prices st = map (\<lambda>d. S_arr st ! (Suc d * p)) [0..<k div p] \<and>
     high_prices st = map (\<lambda>d. Max (set (day_slice (S_arr st) p d))) [0..<k div p] \<and>
     low_prices st = map (\<lambda>d. Min (set (day_slice (S_arr st) p d))) [0..<k div p] \<and>
     day_prices st = map (\<lambda>j. S_arr st ! (k div p * p + Suc j)) [0..<k mod p]"

subsection \<open>The stochastic-volatility recurrences\<close>

text \<open>The number of sub-steps and the sub-step length of a call.\<close>

definition total_steps :: "svm_args \<Rightarrow> nat" where
  "total_steps a = nat (T a * steps_per_day a)"

definition dt_intra :: "svm_args \<Rightarrow> real" where
  "dt_intra a = dt a / real_of_int (steps_per_day a)"

text \<open>The arrays \<open>Z1\<close> and \<open>Z2\<close> that a call builds from the stream \<open>g\<close>.\<close>

definition svm_Z1 :: "svm_args \<Rightarrow> rng \<Rightarrow> real list" where
  "svm_Z1 a g = map g [0..<total_steps a]"

definition svm_Z2 :: "svm_args \<Rightarrow> rng \<Rightarrow> real list" where
  "svm_Z2 a g = map (\<lambda>t. rho a * g t + sqrt (1 - (rho a)\<^sup>2) * g (total_steps a + t))
                  [0..<total_steps a]"

text \<open>The variance after a sub-step, from the variance \<open>vt\<close> before it and the draw \<open>z\<close>.\<close>

definition variance_next :: "svm_args \<Rightarrow> real \<Rightarrow> real \<Rightarrow> real \<Rightarrow> real" where
  "variance_next a d z vt =
     (let u = vt + kappa a * (theta a - vt) * d + sigma_v a * sqrt (max vt 0 * d) * z
      in if u < 0 then 0 else u)"

text \<open>The crash fires at sub-step \<open>t\<close>.\<close>

definition crash_fires :: "svm_args \<Rightarrow> nat \<Rightarrow> bool" where
  "crash_fires a t \<longleftrightarrow>
     crash_day a \<noteq> None \<and> crash_factor a \<noteq> None
     \<and> int t + 1 = the (crash_day a) * steps_per_day a"

text \<open>The price after the diffusion update of sub-step \<open>t\<close>, before any crash.\<close>

definition diffused :: "svm_args \<Rightarrow> real \<Rightarrow> nat \<Rightarrow> real \<Rightarrow> real \<Rightarrow> real \<Rightarrow> real" where
  "diffused a d t z vt St =
     St * exp ((drift_today a (int t) - 0.5 * vt) * d + sqrt (max vt 0 * d) * z)"

definition price_next :: "svm_args \<Rightarrow> real \<Rightarrow> nat \<Rightarrow> real \<Rightarrow> real \<Rightarrow> real \<Rightarrow> real" where
  "price_next a d t z vt St =
     (if crash_fires a t then diffused a d t z vt St * the (crash_factor a)
      else diffused a d t z vt St)"

text \<open>The invariant of the loop of \<open>generate_svm_prices\<close> after \<open>k\<close> sub-steps.\<close>

definition svm_inv ::
  "svm_args \<Rightarrow> real \<Rightarrow> real list \<Rightarrow> real list \<Rightarrow> nat \<Rightarrow> nat \<Rightarrow> nat \<Rightarrow> svm_state \<Rightarrow> bool" where
  "svm_inv a d Z1 Z2 n p k sv \<longleftrightarrow>
     (case sv of (st, v) \<Rightarrow>
        bar_inv n p k st \<and> S_arr st ! 0 = S0 a \<and> length v = Suc n \<and> v ! 0 = v0 a \<and>
        (\<forall>t<k. v ! Suc t = variance_next a d (Z2 ! t) (v ! t)
              \<and> S_arr st ! Suc t = price_next a d t (Z1 ! t) (v ! t) (S_arr st ! t)))"

subsection \<open>The specification's wording\<close>


text \<open>
  The drift of sub-step \<open>t\<close> as the specification states it: \<open>mu + bubble_mu_extra\<close> when
  the bubble parameters are supplied and the day \<open>t // steps_per_day + 1\<close> lies in
  \<open>[bubble_start, bubble_end]\<close>, else \<open>mu\<close>.
\<close>

definition bubble_drift_spec :: "svm_args \<Rightarrow> nat \<Rightarrow> real" where
  "bubble_drift_spec a t =
     (case (bubble_start a, bubble_end a, bubble_mu_extra a) of
        (Some bs, Some be, Some extra) \<Rightarrow>
          if bs \<le> int t div steps_per_day a + 1 \<and> int t div steps_per_day a + 1 \<le> be
          then mu a + extra else mu a
      | _ \<Rightarrow> mu a)"

subsection \<open>Concrete inputs\<close>

text \<open>
  A stochastic-volatility call of two days with two sub-steps each: a long-run variance
  of \<open>-1\<close> pulls every Euler step of the variance below zero, the crash halves the price
  at the end of day 1, and the bubble raises the drift on day 2.
\<close>

definition svm_demo :: svm_args where
  "svm_demo =
     \<lparr>T = 2, dt = 2, S0 = 100, v0 = 0, kappa = 1, theta = - 1, sigma_v = 0, rho = 0, mu = 0,
      bubble_start = Some 2, bubble_end = Some 2, bubble_mu_extra = Some 1,
      crash_day = Some 1, crash_factor = Some (1 / 2), steps_per_day = 2, seed = None\<rparr>"

text \<open>A stream whose first draw is 1 and whose other draws are 0.\<close>

definition one_then_zero :: rng where
  "one_then_zero = (\<lambda>k. if k = 0 then 1 else 0)"

subsection \<open>The chainer\<close>

text \<open>
  The length \<open>T = end_day - start_day\<close> of an interval, and its validity as the first loop
  of \<open>run_simulation\<close> checks it.
\<close>

definition interval_length :: "pylib \<Rightarrow> interval_cfg \<Rightarrow> int" where
  "interval_length L c =
     (case (py_int L (cfg_start c), py_int L (cfg_end c)) of
        (Inr s, Inr e) \<Rightarrow> e - s
      | _ \<Rightarrow> 0)"

definition valid_interval :: "pylib \<Rightarrow> interval_cfg \<Rightarrow> bool" where
  "valid_interval L c \<longleftrightarrow>
     (case (py_int L (cfg_start c), py_int L (cfg_end c)) of
        (Inr s, Inr e) \<Rightarrow> s < e
      | _ \<Rightarrow> False)"

text \<open>The \<open>T\<close> and \<open>S0\<close> arguments of a generator call.\<close>

fun call_T :: "generator_call \<Rightarrow> int" where
  "call_T (CallGBM T' dt' S0' mu' sigma') = T'"
| "call_T (CallSVM a) = T a"

fun call_S0 :: "generator_call \<Rightarrow> real" where
  "call_S0 (CallGBM T' dt' S0' mu' sigma') = S0'"
| "call_S0 (CallSVM a) = S0 a"

text \<open>
  The invariant of the second loop: the days run from 1 to the offset, the five series
  are equally long, \<open>last_price\<close> is the last close so far, and every day after the first
  opens at the close of the day before.
\<close>

definition chain_inv :: "chain_state \<Rightarrow> bool" where
  "chain_inv cs \<longleftrightarrow>
     0 \<le> current_offset cs \<and>
     overall_days cs = [1..current_offset cs] \<and>
     length (overall_open cs) = nat (current_offset cs) \<and>
     length (overall_close cs) = nat (current_offset cs) \<and>
     length (overall_high cs) = nat (current_offset cs) \<and>
     length (overall_low cs) = nat (current_offset cs) \<and>
     last_price cs = (if overall_close cs = [] then None else Some (last (overall_close cs))) \<and>
     (\<forall>j. Suc j < nat (current_offset cs) \<longrightarrow> overall_open cs ! Suc j = overall_close cs ! j)"

subsection \<open>Concrete forms\<close>

text \<open>
  A GBM interval whose drift cancels \<open>sigma\<^sup>2 / 2\<close> and whose sub-step lasts one year, so
  that a sub-step multiplies the price by \<open>e\<close> to the power of its draw.
\<close>

definition gbm_cfg :: "string \<Rightarrow> string \<Rightarrow> string \<Rightarrow> interval_cfg" where
  "gbm_cfg start_text end_text s0_text =
     \<lparr>cfg_start = start_text, cfg_end = end_text,
      cfg_model = ''Geometric Brownian Motion (GBM)'',
      cfg_params = map_of [(''Initial Price Connected to Previous Ending Price'', ''true''),
                           (''Time Step (dt)'', ''4''), (''Initial Stock Price (S0)'', s0_text),
                           (''Drift (mu)'', ''1/2''), (''Volatility (sigma)'', ''1'')]\<rparr>"

text \<open>Two such intervals, entered out of order; the later one asks for an initial price of 50.\<close>

definition demo_gui :: gui where
  "demo_gui = \<lparr>model_intervals = [gbm_cfg ''2'' ''3'' ''50'', gbm_cfg ''1'' ''2'' ''100''],
               simulation_results = None\<rparr>"

definition demo_series :: series where
  "demo_series = \<lparr>Day = [1, 2], Open = [100, 100 * exp 1], Close = [100 * exp 1, 100 * exp 1],
                  High = [100 * exp 1, 100 * exp 1], Low = [100 * exp 1, 100 * exp 1]\<rparr>"



text \<open>A valid interval followed by one with \<open>start_day = end_day = 50\<close>.\<close>

definition equal_days_gui :: gui where
  "equal_days_gui =
     \<lparr>model_intervals = [gbm_cfg ''1'' ''2'' ''100'', gbm_cfg ''50'' ''50'' ''100''],
      simulation_results = None\<rparr>"

section \<open>Lemmas about the generators\<close>

lemma py_get_nat: "i < length xs \<Longrightarrow> py_get xs (int i) = Inr (xs ! i)"
  by (simp add: py_get_def py_index_def)

lemma py_set_nat: "i < length xs \<Longrightarrow> py_set xs (int i) x = Inr (xs[i := x])"
  by (simp add: py_set_def py_index_def)

lemma py_get_beyond: "int (length xs) \<le> i \<Longrightarrow> py_get xs i = Inl IndexError"
  by (simp add: py_get_def py_index_def)

lemma py_set_length: "py_set xs i x = Inr ys \<Longrightarrow> length ys = length xs"
  by (auto simp: py_set_def py_index_def split: if_splits)

lemma py_set_last: "xs \<noteq> [] \<Longrightarrow> py_set xs (- 1) x = Inr (butlast xs @ [x])"
proof -
  assume ne: "xs \<noteq> []"
  then have len: "0 < length xs" by simp
  have idx: "nat (int (length xs) - 1) = length xs - 1" by simp
  have "xs[length xs - 1 := x] = butlast xs @ [x]"
    using ne by (induction xs) (auto split: nat.splits)
  then show ?thesis using len by (simp add: py_set_def py_index_def idx del: One_nat_def)
qed

lemma day_slice_update:
  assumes "Suc d * p \<le> k"
  shows "day_slice (xs[Suc k := y]) p d = day_slice xs p d"
  using assms by (auto simp: day_slice_def)

lemma end_of_day_push:
  assumes inv: "bar_inv n p k st" and p: "0 < p" and k: "k < n"
  shows "\<exists>st'. end_of_day (int (Suc k)) (int p) (push (Suc k) y st) = Inr st'
           \<and> bar_inv n p (Suc k) st' \<and> S_arr st' = (S_arr st)[Suc k := y]"
proof -
  let ?S = "S_arr st" and ?S' = "(S_arr st)[Suc k := y]" and ?q = "k div p"
  have len: "length ?S = Suc n" using inv by (simp add: bar_inv_def)
  have qk: "?q * p + k mod p = k" by simp
  then have qle: "?q * p \<le> k" by (metis le_add1)
  have low: "\<And>i. i \<le> k \<Longrightarrow> ?S' ! i = ?S ! i" by simp
  have o: "map (\<lambda>d. ?S' ! (d * p)) [0..<?q] = open_prices st"
  proof -
    have "\<And>d. d < ?q \<Longrightarrow> d * p \<le> k"
      by (meson qle le_trans less_imp_le_nat mult_le_mono1)
    then show ?thesis using inv by (simp add: bar_inv_def low)
  qed
  have sd: "\<And>d. d < ?q \<Longrightarrow> Suc d * p \<le> k"
    by (meson Suc_leI qle le_trans mult_le_mono1)
  have c: "map (\<lambda>d. ?S' ! (Suc d * p)) [0..<?q] = close_prices st"
    using inv sd by (simp add: bar_inv_def low del: mult_Suc)
  have h: "map (\<lambda>d. Max (set (day_slice ?S' p d))) [0..<?q] = high_prices st"
    using inv sd by (simp add: bar_inv_def day_slice_update del: mult_Suc)
  have l: "map (\<lambda>d. Min (set (day_slice ?S' p d))) [0..<?q] = low_prices st"
    using inv sd by (simp add: bar_inv_def day_slice_update del: mult_Suc)
  have dp: "day_prices st @ [y] = map (\<lambda>j. ?S' ! (?q * p + Suc j)) [0..<Suc (k mod p)]"
  proof -
    have "\<And>j. j < k mod p \<Longrightarrow> ?q * p + Suc j \<le> k" using qk by linarith
    moreover have "?S' ! (?q * p + Suc (k mod p)) = y" using qk len k by simp
    ultimately show ?thesis using inv by (simp add: bar_inv_def low)
  qed
  show ?thesis
  proof (cases "Suc k mod p = 0")
    case False
    then have m: "Suc k mod p = Suc (k mod p)" and d: "Suc k div p = ?q"
      by (auto simp: mod_Suc div_Suc split: if_splits)
    have im: "int (Suc k) mod int p \<noteq> 0"
      using False by (metis of_nat_mod of_nat_eq_0_iff)
    have "end_of_day (int (Suc k)) (int p) (push (Suc k) y st) = Inr (push (Suc k) y st)"
      using p im by (simp add: end_of_day_def)
    moreover have "bar_inv n p (Suc k) (push (Suc k) y st)"
      unfolding bar_inv_def m d using o c h l dp len by (simp add: push_def)
    ultimately show ?thesis by (simp add: push_def)
  next
    case True
    then have m: "Suc (k mod p) = p" and d: "Suc k div p = Suc ?q"
      by (auto simp: mod_Suc div_Suc split: if_splits)
    have sk: "Suc k = Suc ?q * p"
    proof -
      have "Suc k = ?q * p + Suc (k mod p)" using qk by simp
      then show ?thesis using m by simp
    qed
    have im: "int (Suc k) mod int p = 0"
      using True by (metis of_nat_mod of_nat_0)
    have ple: "p \<le> Suc k" using sk by simp
    have idx: "int (Suc k) - int p = int (?q * p)" using sk by simp
    have slice: "day_prices st @ [y] = day_slice ?S' p ?q"
      using dp m by (simp add: day_slice_def)
    have ne: "day_prices st @ [y] \<noteq> []" by simp
    have g1: "py_get ?S' (int (Suc k) - int p) = Inr (?S' ! (?q * p))"
    proof -
      have "length ?S' = Suc n" using len by simp
      then have "?q * p < length ?S'" using qle k by linarith
      then show ?thesis unfolding idx by (rule py_get_nat)
    qed
    have g2: "py_get ?S' (int (Suc k)) = Inr (?S' ! (Suc ?q * p))"
      using py_get_nat[of "Suc k" ?S'] len k sk by simp
    let ?st' = "(push (Suc k) y st)\<lparr>open_prices := open_prices st @ [?S' ! (?q * p)],
                   close_prices := close_prices st @ [?S' ! (Suc ?q * p)],
                   high_prices := high_prices st @ [Max (set (day_slice ?S' p ?q))],
                   low_prices := low_prices st @ [Min (set (day_slice ?S' p ?q))],
                   day_prices := []\<rparr>"
    have "end_of_day (int (Suc k)) (int p) (push (Suc k) y st) = Inr ?st'"
      using p im g1 g2 slice ne
      by (simp add: end_of_day_def push_def np_max_def np_min_def del: of_nat_Suc mult_Suc)
    moreover have "bar_inv n p (Suc k) ?st'"
      unfolding bar_inv_def d using o c h l len True
      by (simp add: push_def del: mult_Suc)
    ultimately show ?thesis by (simp add: push_def)
  qed
qed

lemma upto_snoc_nat: "[1..int (Suc k)] = [1..int k] @ [int (Suc k)]"
  using upto_rec2[of 1 "int (Suc k)"] by simp

lemma gbm_step_push:
  assumes "length (S_arr st) = Suc n" and "k < n"
  shows "gbm_step m s d sp (int (Suc k)) Z st =
         end_of_day (int (Suc k)) sp
           (push (Suc k) (S_arr st ! k * exp ((m - 0.5 * s\<^sup>2) * d + s * sqrt d * Z)) st)"
proof -
  have a: "py_get (S_arr st) (int (Suc k) - 1) = Inr (S_arr st ! k)"
    using py_get_nat[of k "S_arr st"] assms by simp
  have b: "\<And>y. py_set (S_arr st) (int (Suc k)) y = Inr ((S_arr st)[Suc k := y])"
    using assms by (intro py_set_nat) simp
  have c: "\<And>y. py_get ((S_arr st)[Suc k := y]) (int (Suc k)) = Inr y"
    using py_get_nat[of "Suc k" "(S_arr st)[Suc k := _]"] assms by simp
  show ?thesis
    by (simp add: gbm_step_def a b c push_def del: of_nat_Suc)
qed

lemma gbm_loop_snoc:
  "gbm_loop m s d sp (ts @ [t]) st g =
     (case gbm_loop m s d sp ts st g of
        (Inl e, g') \<Rightarrow> (Inl e, g')
      | (Inr st', g') \<Rightarrow>
          (case gbm_step m s d sp t (g' 0) st' of
             Inl e \<Rightarrow> (Inl e, rng_drop 1 g')
           | Inr st'' \<Rightarrow> (Inr st'', rng_drop 1 g')))"
  by (induction ts arbitrary: st g) (auto split: sum.splits)

lemma rng_drop_Suc: "rng_drop (Suc 0) (rng_drop k g) = rng_drop (Suc k) g"
  by (simp add: rng_drop_def fun_eq_iff)

lemma bar_inv_init: "length A = Suc n \<Longrightarrow> bar_inv n p 0 (init_state A)"
  by (simp add: bar_inv_def init_state_def)

lemma S_arr_init: "S_arr (init_state A) = A"
  by (simp add: init_state_def)

lemma gbm_loop_inv:
  assumes p: "0 < p" and len: "length A = Suc n"
  shows "k \<le> n \<Longrightarrow> \<exists>st. gbm_loop m s d (int p) [1..int k] (init_state A) g = (Inr st, rng_drop k g)
            \<and> bar_inv n p k st \<and> S_arr st ! 0 = A ! 0"
proof (induction k)
  case 0
  then show ?case using len by (simp add: bar_inv_init rng_drop_def S_arr_init)
next
  case (Suc k)
  then obtain st where
    run: "gbm_loop m s d (int p) [1..int k] (init_state A) g = (Inr st, rng_drop k g)"
    and inv: "bar_inv n p k st" and z: "S_arr st ! 0 = A ! 0"
    by auto
  have kn: "k < n" using Suc.prems by simp
  have ln: "length (S_arr st) = Suc n" using inv by (simp add: bar_inv_def)
  let ?y = "S_arr st ! k * exp ((m - 0.5 * s\<^sup>2) * d + s * sqrt d * rng_drop k g 0)"
  obtain st' where
    e: "end_of_day (int (Suc k)) (int p) (push (Suc k) ?y st) = Inr st'"
    and inv': "bar_inv n p (Suc k) st'" and S': "S_arr st' = (S_arr st)[Suc k := ?y]"
    using end_of_day_push[OF inv p kn] by blast
  have "gbm_step m s d (int p) (int (Suc k)) (rng_drop k g 0) st = Inr st'"
    using gbm_step_push[OF ln kn] e by simp
  then have "gbm_loop m s d (int p) [1..int (Suc k)] (init_state A) g = (Inr st', rng_drop (Suc k) g)"
    unfolding upto_snoc_nat gbm_loop_snoc run by (simp add: rng_drop_Suc del: of_nat_Suc)
  moreover have "S_arr st' ! 0 = A ! 0" using S' z by simp
  ultimately show ?case using inv' by blast
qed

lemma ebind_Inr_iff: "ebind x f = Inr y \<longleftrightarrow> (\<exists>z. x = Inr z \<and> f z = Inr y)"
  by (cases x) auto

lemma end_of_day_S_arr: "end_of_day t sp st = Inr st' \<Longrightarrow> S_arr st' = S_arr st"
  by (auto simp: end_of_day_def ebind_Inr_iff split: if_splits)

lemma end_of_day_neg_fails:
  assumes "sp < 0" and "t mod sp = 0" and "int (length (S_arr st)) \<le> t + 1"
  shows "end_of_day t sp st = Inl IndexError"
proof -
  have "int (length (S_arr st)) \<le> t - sp" using assms by linarith
  then have "py_get (S_arr st) (t - sp) = Inl IndexError" by (rule py_get_beyond)
  then show ?thesis using assms by (simp add: end_of_day_def)
qed

lemma gbm_step_length:
  "gbm_step m s d sp t Z st = Inr st' \<Longrightarrow> length (S_arr st') = length (S_arr st)"
  by (auto simp: gbm_step_def ebind_Inr_iff dest!: end_of_day_S_arr py_set_length)

lemma gbm_loop_length:
  "gbm_loop m s d sp ts st g = (Inr st', g') \<Longrightarrow> length (S_arr st') = length (S_arr st)"
proof (induction ts arbitrary: st g)
  case Nil
  then show ?case by simp
next
  case (Cons t ts)
  then show ?case
    by (auto split: sum.splits dest: gbm_step_length)
qed

lemma gbm_step_neg_fails:
  assumes "sp < 0" and "t mod sp = 0" and "int (length (S_arr st)) \<le> t + 1"
  shows "gbm_step m s d sp t Z st \<noteq> Inr st'"
proof
  assume "gbm_step m s d sp t Z st = Inr st'"
  then obtain y S1 c where a: "py_set (S_arr st) t y = Inr S1"
    and b: "end_of_day t sp (st\<lparr>S_arr := S1, day_prices := day_prices st @ [c]\<rparr>) = Inr st'"
    by (auto simp: gbm_step_def ebind_Inr_iff)
  have "length S1 = length (S_arr st)" using a by (rule py_set_length)
  then have "end_of_day t sp (st\<lparr>S_arr := S1, day_prices := day_prices st @ [c]\<rparr>) = Inl IndexError"
    using assms by (intro end_of_day_neg_fails) simp_all
  with b show False by simp
qed

lemma gbm_run_ok:
  assumes sp: "0 < sp" and T: "0 \<le> Tn"
  shows "\<exists>st. gbm_run Tn d s0 m s sp g = (Inr st, rng_drop (nat (Tn * sp)) g)
           \<and> bar_inv (nat (Tn * sp)) (nat sp) (nat (Tn * sp)) st \<and> S_arr st ! 0 = s0"
proof -
  let ?n = "nat (Tn * sp)" and ?A = "(replicate (nat (Tn * sp + 1)) (0::real))[0 := s0]"
  have n0: "0 \<le> Tn * sp" using sp T by simp
  have lenA: "length ?A = Suc ?n" using n0 by (simp add: nat_add_distrib)
  have z: "np_zeros (Tn * sp + 1) = Inr (replicate (nat (Tn * sp + 1)) 0)"
    using n0 by (simp add: np_zeros_def)
  have st: "py_set (replicate (nat (Tn * sp + 1)) (0::real)) 0 s0 = Inr ?A"
    using py_set_nat[of 0 "replicate (nat (Tn * sp + 1)) (0::real)" s0] n0 by simp
  have A0: "?A ! 0 = s0" using n0 by (simp add: nat_add_distrib)
  have psp: "0 < nat sp" using sp by simp
  obtain st where
    "gbm_loop m s (d / real_of_int sp) (int (nat sp)) [1..int ?n] (init_state ?A) g
       = (Inr st, rng_drop ?n g)"
    and "bar_inv ?n (nat sp) ?n st" and "S_arr st ! 0 = ?A ! 0"
    using gbm_loop_inv[OF psp lenA, of ?n] by blast
  then show ?thesis
    using sp n0 A0 by (simp add: gbm_run_def z st)
qed

lemma upto_last: "1 \<le> n \<Longrightarrow> [1..n] = [1..n - 1] @ [n]"
  using upto_rec2[of 1 n] by simp

lemma gbm_run_Inr:
  assumes run: "gbm_run Tn d s0 m s sp g = (Inr st, g')"
  shows "(0 < sp \<and> 0 \<le> Tn) \<or> (Tn = 0 \<and> st = init_state [s0])"
proof (rule ccontr)
  assume neg: "\<not> ((0 < sp \<and> 0 \<le> Tn) \<or> (Tn = 0 \<and> st = init_state [s0]))"
  have sp0: "sp \<noteq> 0" using run by (auto simp: gbm_run_def)
  let ?n = "Tn * sp"
  have ge: "0 \<le> ?n"
  proof (rule ccontr)
    assume "\<not> 0 \<le> ?n"
    then have "?n + 1 < 0 \<or> ?n + 1 = 0" by linarith
    then show False using run sp0
      by (auto simp: gbm_run_def np_zeros_def py_set_def py_index_def)
  qed
  let ?A = "(replicate (nat (?n + 1)) (0::real))[0 := s0]"
  have init: "ebind (np_zeros (?n + 1)) (\<lambda>Z0. py_set Z0 0 s0) = Inr ?A"
    using ge py_set_nat[of 0 "replicate (nat (?n + 1)) (0::real)" s0]
    by (simp add: np_zeros_def)
  have loop: "gbm_loop m s (d / real_of_int sp) sp [1..?n] (init_state ?A) g = (Inr st, g')"
    using run sp0 by (simp add: gbm_run_def init Let_def)
  show False
  proof (cases "Tn = 0")
    case True
    then show False using loop neg by simp
  next
    case False
    then have "?n \<noteq> 0" using sp0 by simp
    then have pos: "1 \<le> ?n" using ge by linarith
    have spn: "sp < 0"
    proof (rule ccontr)
      assume "\<not> sp < 0"
      then have "0 < sp" using sp0 by simp
      moreover have "0 \<le> Tn" using ge \<open>0 < sp\<close> zero_le_mult_iff[of Tn sp] by linarith
      ultimately show False using neg by simp
    qed
    obtain r gg where pre: "gbm_loop m s (d / real_of_int sp) sp [1..?n - 1] (init_state ?A) g = (r, gg)"
      by (cases "gbm_loop m s (d / real_of_int sp) sp [1..?n - 1] (init_state ?A) g")
    show False
    proof (cases r)
      case (Inl e)
      then show False using loop pre unfolding upto_last[OF pos] gbm_loop_snoc by simp
    next
      case (Inr st1)
      have "length (S_arr st1) = length ?A"
        using gbm_loop_length pre Inr by (metis S_arr_init)
      then have "int (length (S_arr st1)) \<le> ?n + 1" using ge by simp
      then have "gbm_step m s (d / real_of_int sp) sp ?n (gg 0) st1 \<noteq> Inr st"
        using spn by (intro gbm_step_neg_fails) simp_all
      then show False using loop pre Inr unfolding upto_last[OF pos] gbm_loop_snoc
        by (auto split: sum.splits)
    qed
  qed
qed

lemma close_in_day_slice: "0 < p \<Longrightarrow> xs ! (Suc d * p) \<in> set (day_slice xs p d)"
proof -
  assume p: "0 < p"
  then have "d * p + Suc (p - 1) = Suc d * p" by simp
  moreover have "p - 1 < p" using p by simp
  ultimately have "xs ! (Suc d * p) \<in> (\<lambda>j. xs ! (d * p + Suc j)) ` {0..<p}"
    by (metis (no_types, lifting) atLeastLessThan_iff image_eqI le0)
  then show ?thesis by (simp add: day_slice_def)
qed

lemma bar_inv_final:
  assumes inv: "bar_inv n p (Tn * p) st" and p: "0 < p"
  shows "length (open_prices st) = Tn" and "length (close_prices st) = Tn"
    and "length (high_prices st) = Tn" and "length (low_prices st) = Tn"
    and "\<And>i. i < Tn \<Longrightarrow> open_prices st ! i = S_arr st ! (i * p)"
    and "\<And>i. i < Tn \<Longrightarrow> close_prices st ! i = S_arr st ! (Suc i * p)"
    and "\<And>i. i < Tn \<Longrightarrow> high_prices st ! i = Max (set (day_slice (S_arr st) p i))"
    and "\<And>i. i < Tn \<Longrightarrow> low_prices st ! i = Min (set (day_slice (S_arr st) p i))"
  using inv p by (simp_all add: bar_inv_def del: mult_Suc)

lemma bar_inv_close_between:
  assumes inv: "bar_inv n p (Tn * p) st" and p: "0 < p" and i: "i < Tn"
  shows "low_prices st ! i \<le> close_prices st ! i \<and> close_prices st ! i \<le> high_prices st ! i"
proof -
  have "close_prices st ! i \<in> set (day_slice (S_arr st) p i)"
    using bar_inv_final(6)[OF inv p i] close_in_day_slice[OF p] by simp
  then show ?thesis
    using bar_inv_final(7,8)[OF inv p i] by simp
qed

lemma bar_inv_open_chain:
  assumes inv: "bar_inv n p (Tn * p) st" and p: "0 < p" and i: "Suc i < Tn"
  shows "open_prices st ! Suc i = close_prices st ! i"
  using bar_inv_final(5)[OF inv p i] bar_inv_final(6)[OF inv p, of i] i by simp

lemma bar_inv_open_first:
  assumes inv: "bar_inv n p (Tn * p) st" and p: "0 < p" and i: "0 < Tn"
  shows "open_prices st ! 0 = S_arr st ! 0"
  using bar_inv_final(5)[OF inv p i] by simp

lemma gbm_run_bars:
  assumes run: "gbm_run Tn d s0 m s sp g = (Inr st, g')"
  shows "length (open_prices st) = nat Tn \<and> length (close_prices st) = nat Tn
       \<and> length (high_prices st) = nat Tn \<and> length (low_prices st) = nat Tn
       \<and> (\<forall>i < nat Tn. low_prices st ! i \<le> close_prices st ! i
                       \<and> close_prices st ! i \<le> high_prices st ! i)
       \<and> (0 < Tn \<longrightarrow> open_prices st ! 0 = s0)
       \<and> (\<forall>i. Suc i < nat Tn \<longrightarrow> open_prices st ! Suc i = close_prices st ! i)"
proof -
  consider (ok) "0 < sp" "0 \<le> Tn" | (empty) "Tn = 0" "st = init_state [s0]"
    using gbm_run_Inr[OF run] by blast
  then show ?thesis
  proof cases
    case ok
    obtain st1 where r: "gbm_run Tn d s0 m s sp g = (Inr st1, rng_drop (nat (Tn * sp)) g)"
      and inv: "bar_inv (nat (Tn * sp)) (nat sp) (nat (Tn * sp)) st1" and z: "S_arr st1 ! 0 = s0"
      using gbm_run_ok[OF ok] by blast
    have eq: "st1 = st" using r run by simp
    have k: "nat (Tn * sp) = nat Tn * nat sp" using ok by (simp add: nat_mult_distrib)
    have inv': "bar_inv (nat (Tn * sp)) (nat sp) (nat Tn * nat sp) st" using inv eq k by simp
    have p: "0 < nat sp" using ok by simp
    show ?thesis
      using bar_inv_final(1-4)[OF inv' p] bar_inv_close_between[OF inv' p]
        bar_inv_open_chain[OF inv' p] bar_inv_open_first[OF inv' p] z eq
      by auto
  next
    case empty
    then show ?thesis by (simp add: init_state_def)
  qed
qed

lemma int_Suc': "int k + 1 = int (Suc k)" by simp

lemma update_variance_eq:
  assumes "length v = Suc n" and "length Z2 = n" and "k < n"
  shows "update_variance a d Z2 (int k) v = Inr (v[Suc k := variance_next a d (Z2 ! k) (v ! k)])"
proof -
  have g1: "py_get v (int k) = Inr (v ! k)" using assms by (intro py_get_nat) simp
  have g2: "py_get Z2 (int k) = Inr (Z2 ! k)" using assms by (intro py_get_nat) simp
  have s1: "\<And>y. py_set v (int (Suc k)) y = Inr (v[Suc k := y])"
    using assms by (intro py_set_nat) simp
  have g3: "\<And>y. py_get (v[Suc k := y]) (int (Suc k)) = Inr y"
    using py_get_nat[of "Suc k" "v[Suc k := _]"] assms by simp
  have s2: "\<And>y z. py_set (v[Suc k := y]) (int (Suc k)) z = Inr (v[Suc k := z])"
    using py_set_nat[of "Suc k" "v[Suc k := _]"] assms by simp
  show ?thesis
    unfolding update_variance_def int_Suc' g1 g2
    by (simp add: s1 g3 s2 variance_next_def Let_def del: of_nat_Suc)
qed

lemma update_price_eq:
  assumes "length (S_arr st) = Suc n" and "length v = Suc n" and "length Z1 = n" and "k < n"
  shows "update_price a d Z1 (int k) v st
           = Inr (push (Suc k) (diffused a d k (Z1 ! k) (v ! k) (S_arr st ! k)) st)"
proof -
  have g1: "py_get (S_arr st) (int k) = Inr (S_arr st ! k)" using assms by (intro py_get_nat) simp
  have g2: "py_get v (int k) = Inr (v ! k)" using assms by (intro py_get_nat) simp
  have g3: "py_get Z1 (int k) = Inr (Z1 ! k)" using assms by (intro py_get_nat) simp
  have s1: "\<And>y. py_set (S_arr st) (int (Suc k)) y = Inr ((S_arr st)[Suc k := y])"
    using assms by (intro py_set_nat) simp
  have g4: "\<And>y. py_get ((S_arr st)[Suc k := y]) (int (Suc k)) = Inr y"
    using py_get_nat[of "Suc k" "(S_arr st)[Suc k := _]"] assms by simp
  show ?thesis
    unfolding update_price_def int_Suc' g1 g2 g3
    by (simp add: s1 g4 push_def diffused_def del: of_nat_Suc)
qed

lemma crash_event_eq:
  assumes "length (S_arr st) = Suc n" and "k < n"
  shows "crash_event a (int k) (push (Suc k) x st)
           = Inr (push (Suc k) (if crash_fires a k then x * the (crash_factor a) else x) st)"
proof (cases "crash_fires a k")
  case False
  then show ?thesis by (auto simp: crash_event_def crash_fires_def)
next
  case True
  let ?S = "(S_arr st)[Suc k := x]"
  have g: "py_get ?S (int (Suc k)) = Inr x"
    using py_get_nat[of "Suc k" ?S] assms by simp
  have s: "\<And>y. py_set ?S (int (Suc k)) y = Inr ((S_arr st)[Suc k := y])"
    using py_set_nat[of "Suc k" ?S] assms by simp
  have g': "\<And>y. py_get ((S_arr st)[Suc k := y]) (int (Suc k)) = Inr y"
    using py_get_nat[of "Suc k" "(S_arr st)[Suc k := _]"] assms by simp
  have l: "\<And>y. py_set (day_prices st @ [x]) (- 1) y = Inr (day_prices st @ [y])"
    using py_set_last[of "day_prices st @ [x]"] by simp
  have c: "crash_day a \<noteq> None \<and> crash_factor a \<noteq> None"
    and t: "int k + 1 = the (crash_day a) * steps_per_day a"
    using True by (auto simp: crash_fires_def)
  have t': "the (crash_day a) * steps_per_day a = int (Suc k)" using t by simp
  show ?thesis
    unfolding crash_event_def using c True
    by (simp add: push_def int_Suc' t' g s g' l del: of_nat_Suc)
qed

lemma svm_step_eq:
  assumes "length (S_arr st) = Suc n" and "length v = Suc n" and "length Z1 = n"
    and "length Z2 = n" and "k < n" and "steps_per_day a \<noteq> 0"
  shows "svm_step a d Z1 Z2 (int k) (st, v) =
           ebind (end_of_day (int (Suc k)) (steps_per_day a)
                    (push (Suc k) (price_next a d k (Z1 ! k) (v ! k) (S_arr st ! k)) st))
             (\<lambda>st3. Inr (st3, v[Suc k := variance_next a d (Z2 ! k) (v ! k)]))"
proof -
  let ?v = "v[Suc k := variance_next a d (Z2 ! k) (v ! k)]"
  have lv: "length ?v = Suc n" using assms by simp
  have vk: "?v ! k = v ! k" by simp
  show ?thesis
    unfolding svm_step_def
    using assms(6) update_variance_eq[OF assms(2,4,5)] update_price_eq[OF assms(1) lv assms(3,5)]
      crash_event_eq[OF assms(1,5)]
    by (simp add: vk price_next_def int_Suc' del: of_nat_Suc)
qed

lemma svm_loop_snoc:
  "svm_loop a d Z1 Z2 (ts @ [t]) sv = ebind (svm_loop a d Z1 Z2 ts sv) (svm_step a d Z1 Z2 t)"
proof (induction ts arbitrary: sv)
  case Nil
  show ?case by (cases "svm_step a d Z1 Z2 t sv") simp_all
next
  case (Cons u us)
  show ?case by (cases "svm_step a d Z1 Z2 u sv") (simp_all add: Cons.IH)
qed

lemma upto0_snoc_nat: "[0..int (Suc k) - 1] = [0..int k - 1] @ [int k]"
  using upto_rec2[of 0 "int k"] by simp

lemma svm_inv_init:
  assumes "length A = Suc n" and "A ! 0 = S0 a" and "length V = Suc n" and "V ! 0 = v0 a"
  shows "svm_inv a d Z1 Z2 n p 0 (init_state A, V)"
  using assms by (simp add: svm_inv_def bar_inv_init S_arr_init)

lemma svm_loop_inv:
  assumes p: "0 < p" and sp: "steps_per_day a = int p"
    and A: "length A = Suc n" "A ! 0 = S0 a" and V: "length V = Suc n" "V ! 0 = v0 a"
    and Z: "length Z1 = n" "length Z2 = n"
  shows "k \<le> n \<Longrightarrow> \<exists>sv. svm_loop a d Z1 Z2 [0..int k - 1] (init_state A, V) = Inr sv
                      \<and> svm_inv a d Z1 Z2 n p k sv"
proof (induction k)
  case 0
  then show ?case using svm_inv_init[OF A V] by simp
next
  case (Suc k)
  then obtain st v where
    run: "svm_loop a d Z1 Z2 [0..int k - 1] (init_state A, V) = Inr (st, v)"
    and inv: "svm_inv a d Z1 Z2 n p k (st, v)"
    by fastforce
  have kn: "k < n" using Suc.prems by simp
  have bar: "bar_inv n p k st" and s0: "S_arr st ! 0 = S0 a" and lv: "length v = Suc n"
    and v0: "v ! 0 = v0 a"
    and rec: "\<And>t. t < k \<Longrightarrow> v ! Suc t = variance_next a d (Z2 ! t) (v ! t)
              \<and> S_arr st ! Suc t = price_next a d t (Z1 ! t) (v ! t) (S_arr st ! t)"
    using inv by (auto simp: svm_inv_def)
  have ls: "length (S_arr st) = Suc n" using bar by (simp add: bar_inv_def)
  let ?y = "price_next a d k (Z1 ! k) (v ! k) (S_arr st ! k)"
  let ?v = "v[Suc k := variance_next a d (Z2 ! k) (v ! k)]"
  obtain st' where
    e: "end_of_day (int (Suc k)) (int p) (push (Suc k) ?y st) = Inr st'"
    and bar': "bar_inv n p (Suc k) st'" and S': "S_arr st' = (S_arr st)[Suc k := ?y]"
    using end_of_day_push[OF bar p kn] by blast
  have sp0: "steps_per_day a \<noteq> 0" using p sp by simp
  have step: "svm_step a d Z1 Z2 (int k) (st, v) = Inr (st', ?v)"
    using svm_step_eq[OF ls lv Z kn sp0] e sp by simp
  have loop: "svm_loop a d Z1 Z2 [0..int (Suc k) - 1] (init_state A, V) = Inr (st', ?v)"
    unfolding upto0_snoc_nat svm_loop_snoc run using step by simp
  have rec': "v' ! Suc t = variance_next a d (Z2 ! t) (v' ! t)
              \<and> S_arr st' ! Suc t = price_next a d t (Z1 ! t) (v' ! t) (S_arr st' ! t)"
    if "t < Suc k" and "v' = ?v" for t v'
  proof (cases "t = k")
    case True
    then show ?thesis using S' ls lv kn that by simp
  next
    case False
    then have "t < k" using that by simp
    then show ?thesis using rec[of t] S' that by simp
  qed
  have "svm_inv a d Z1 Z2 n p (Suc k) (st', ?v)"
    unfolding svm_inv_def using bar' S' s0 lv v0 rec' by simp
  then show ?case using loop by blast
qed

lemma update_price_length:
  "update_price a d Z1 t v st = Inr st' \<Longrightarrow> length (S_arr st') = length (S_arr st)"
  by (auto simp: update_price_def ebind_Inr_iff dest!: py_set_length)

lemma crash_event_length:
  "crash_event a t st = Inr st' \<Longrightarrow> length (S_arr st') = length (S_arr st)"
  by (auto simp: crash_event_def ebind_Inr_iff split: if_splits dest!: py_set_length)

lemma svm_step_length:
  assumes "svm_step a d Z1 Z2 t (st, v) = Inr (st', v')"
  shows "length (S_arr st') = length (S_arr st)"
proof -
  obtain w st1 st2 where u: "update_price a d Z1 t w st = Inr st1"
    and c: "crash_event a t st1 = Inr st2"
    and e: "end_of_day (t + 1) (steps_per_day a) st2 = Inr st'"
    using assms by (auto simp: svm_step_def ebind_Inr_iff split: if_splits)
  show ?thesis
    using u c e update_price_length crash_event_length end_of_day_S_arr by metis
qed

lemma svm_loop_length:
  "svm_loop a d Z1 Z2 ts sv = Inr sv' \<Longrightarrow> length (S_arr (fst sv')) = length (S_arr (fst sv))"
proof (induction ts arbitrary: sv)
  case Nil
  then show ?case by simp
next
  case (Cons t ts)
  then obtain sv1 where s: "svm_step a d Z1 Z2 t sv = Inr sv1"
    and l: "svm_loop a d Z1 Z2 ts sv1 = Inr sv'"
    by (auto simp: ebind_Inr_iff)
  have "length (S_arr (fst sv1)) = length (S_arr (fst sv))"
    using s svm_step_length[of a d Z1 Z2 t "fst sv" "snd sv" "fst sv1" "snd sv1"] by simp
  then show ?case using Cons.IH[OF l] by simp
qed

lemma svm_step_neg_fails:
  assumes "steps_per_day a < 0" and "(t + 1) mod steps_per_day a = 0"
    and "int (length (S_arr st)) \<le> t + 2"
  shows "svm_step a d Z1 Z2 t (st, v) \<noteq> Inr sv'"
proof
  assume "svm_step a d Z1 Z2 t (st, v) = Inr sv'"
  then obtain w st1 st2 st3 where u: "update_price a d Z1 t w st = Inr st1"
    and c: "crash_event a t st1 = Inr st2"
    and e: "end_of_day (t + 1) (steps_per_day a) st2 = Inr st3"
    by (auto simp: svm_step_def ebind_Inr_iff split: if_splits)
  have "length (S_arr st2) = length (S_arr st)"
    using u c update_price_length crash_event_length by metis
  then have "end_of_day (t + 1) (steps_per_day a) st2 = Inl IndexError"
    using assms by (intro end_of_day_neg_fails) simp_all
  with e show False by simp
qed

lemma map2_draws:
  "map2 f (map g [0..<n]) (map (rng_drop n g) [0..<n]) = map (\<lambda>t. f (g t) (g (n + t))) [0..<n]"
  by (rule nth_equalityI) (simp_all add: rng_drop_def)

lemma rng_drop_add: "rng_drop m (rng_drop n g) = rng_drop (n + m) g"
  by (simp add: rng_drop_def fun_eq_iff add.assoc)

lemma svm_run_unfold:
  assumes sp: "steps_per_day a \<noteq> 0" and n0: "0 \<le> T a * steps_per_day a"
  shows "svm_run a g =
           (svm_loop a (dt_intra a) (svm_Z1 a g) (svm_Z2 a g) [0..int (total_steps a) - 1]
              (init_state ((replicate (Suc (total_steps a)) 0)[0 := S0 a]),
               (replicate (Suc (total_steps a)) 0)[0 := v0 a]),
            rng_drop (2 * total_steps a) g)"
proof -
  let ?n = "T a * steps_per_day a"
  have nn: "nat (?n + 1) = Suc (total_steps a)" using n0 by (simp add: total_steps_def nat_add_distrib)
  have z: "np_zeros (?n + 1) = Inr (replicate (Suc (total_steps a)) 0)"
    using n0 by (simp add: np_zeros_def nn)
  have s: "\<And>x. py_set (replicate (Suc (total_steps a)) (0::real)) 0 x
              = Inr ((replicate (Suc (total_steps a)) 0)[0 := x])"
    using py_set_nat[of 0 "replicate (Suc (total_steps a)) (0::real)"] by simp
  have i: "int (total_steps a) = ?n" using n0 by (simp add: total_steps_def)
  have d1: "np_random_normal ?n g = (Inr (map g [0..<total_steps a]), rng_drop (total_steps a) g)"
    using n0 by (simp add: np_random_normal_def total_steps_def)
  have d2: "np_random_normal ?n (rng_drop (total_steps a) g)
              = (Inr (map (rng_drop (total_steps a) g) [0..<total_steps a]),
                 rng_drop (2 * total_steps a) g)"
    using n0 by (simp add: np_random_normal_def total_steps_def rng_drop_add mult_2)
  show ?thesis
    using sp
    by (simp add: svm_run_def Let_def z s d1 d2 map2_draws svm_Z1_def svm_Z2_def dt_intra_def i
          del: replicate_Suc)
qed

lemma svm_run_ok:
  assumes sp: "0 < steps_per_day a" and T: "0 \<le> T a"
  shows "\<exists>st v. svm_run a g = (Inr (st, v), rng_drop (2 * total_steps a) g)
           \<and> svm_inv a (dt_intra a) (svm_Z1 a g) (svm_Z2 a g) (total_steps a)
                (nat (steps_per_day a)) (total_steps a) (st, v)"
proof -
  have n0: "0 \<le> T a * steps_per_day a" using sp T by simp
  have sp0: "steps_per_day a \<noteq> 0" using sp by simp
  have p: "0 < nat (steps_per_day a)" and spp: "steps_per_day a = int (nat (steps_per_day a))"
    using sp by simp_all
  let ?A = "(replicate (Suc (total_steps a)) (0::real))[0 := S0 a]"
  let ?V = "(replicate (Suc (total_steps a)) (0::real))[0 := v0 a]"
  obtain sv where
    l: "svm_loop a (dt_intra a) (svm_Z1 a g) (svm_Z2 a g) [0..int (total_steps a) - 1]
          (init_state ?A, ?V) = Inr sv"
    and inv: "svm_inv a (dt_intra a) (svm_Z1 a g) (svm_Z2 a g) (total_steps a)
                (nat (steps_per_day a)) (total_steps a) sv"
    using svm_loop_inv[OF p spp, of ?A "total_steps a" ?V "svm_Z1 a g" "svm_Z2 a g"
        "total_steps a" "dt_intra a"]
    by (auto simp: svm_Z1_def svm_Z2_def simp del: replicate_Suc)
  show ?thesis
    unfolding svm_run_unfold[OF sp0 n0] using l inv by (cases sv) simp
qed

lemma upto0_last: "1 \<le> n \<Longrightarrow> [0..n - 1] = [0..n - 2] @ [n - 1]"
  using upto_rec2[of 0 "n - 1"] by simp

lemma svm_run_Inr:
  assumes run: "svm_run a g = (Inr (st, v), g')"
  shows "(0 < steps_per_day a \<and> 0 \<le> T a)
       \<or> (T a = 0 \<and> st = init_state [S0 a] \<and> v = [v0 a])"
proof (rule ccontr)
  assume neg: "\<not> ((0 < steps_per_day a \<and> 0 \<le> T a)
                  \<or> (T a = 0 \<and> st = init_state [S0 a] \<and> v = [v0 a]))"
  let ?sp = "steps_per_day a" and ?n = "T a * steps_per_day a"
  have sp0: "?sp \<noteq> 0" using run by (auto simp: svm_run_def)
  have ge: "0 \<le> ?n"
  proof (rule ccontr)
    assume "\<not> 0 \<le> ?n"
    then have "?n + 1 < 0 \<or> ?n + 1 = 0" by linarith
    then show False using run sp0
      by (auto simp: svm_run_def np_zeros_def py_set_def py_index_def)
  qed
  let ?A = "(replicate (Suc (total_steps a)) (0::real))[0 := S0 a]"
  let ?V = "(replicate (Suc (total_steps a)) (0::real))[0 := v0 a]"
  have loop: "svm_loop a (dt_intra a) (svm_Z1 a g) (svm_Z2 a g) [0..int (total_steps a) - 1]
                (init_state ?A, ?V) = Inr (st, v)"
    using run unfolding svm_run_unfold[OF sp0 ge] by simp
  have i: "int (total_steps a) = ?n" using ge by (simp add: total_steps_def)
  show False
  proof (cases "T a = 0")
    case True
    then have "total_steps a = 0" by (simp add: total_steps_def)
    then show False using loop neg True by (simp add: init_state_def)
  next
    case False
    then have "?n \<noteq> 0" using sp0 by simp
    then have pos: "1 \<le> ?n" using ge by linarith
    have spn: "?sp < 0"
    proof (rule ccontr)
      assume "\<not> ?sp < 0"
      then have "0 < ?sp" using sp0 by simp
      moreover have "0 \<le> T a" using ge \<open>0 < ?sp\<close> zero_le_mult_iff[of "T a" ?sp] by linarith
      ultimately show False using neg by simp
    qed
    obtain r where pre: "svm_loop a (dt_intra a) (svm_Z1 a g) (svm_Z2 a g) [0..?n - 2]
                (init_state ?A, ?V) = r"
      by simp
    show False
    proof (cases r)
      case (Inl e)
      then show False using loop pre unfolding i upto0_last[OF pos] svm_loop_snoc by simp
    next
      case (Inr sv1)
      have "length (S_arr (fst sv1)) = length ?A"
        using svm_loop_length[of a "dt_intra a" "svm_Z1 a g" "svm_Z2 a g" "[0..?n - 2]"
            "(init_state ?A, ?V)" sv1] pre Inr
        by (simp add: S_arr_init del: replicate_Suc)
      then have "int (length (S_arr (fst sv1))) \<le> (?n - 1) + 2" using i by simp
      then have "svm_step a (dt_intra a) (svm_Z1 a g) (svm_Z2 a g) (?n - 1) (fst sv1, snd sv1)
                   \<noteq> Inr (st, v)"
        using spn by (intro svm_step_neg_fails) simp_all
      then show False using loop pre Inr unfolding i upto0_last[OF pos] svm_loop_snoc
        by simp
    qed
  qed
qed

lemma generate_gbm_prices_Inr:
  assumes "generate_gbm_prices L Tn d s0 m s sp sd g = (Inr (days, os, cs, hs, ls), g')"
  shows "\<exists>st g1. gbm_run Tn d s0 m s sp g1 = (Inr st, g') \<and> days = [1..Tn]
           \<and> os = open_prices st \<and> cs = close_prices st
           \<and> hs = high_prices st \<and> ls = low_prices st"
  using assms
  by (auto simp: generate_gbm_prices_def path_of_def np_arange1_def
      split: option.splits sum.splits prod.splits)

lemma generate_svm_prices_Inr:
  assumes "generate_svm_prices L a g = (Inr (days, os, cs, hs, ls), g')"
  shows "\<exists>st v g1. svm_run a g1 = (Inr (st, v), g') \<and> days = [1..T a]
           \<and> os = open_prices st \<and> cs = close_prices st
           \<and> hs = high_prices st \<and> ls = low_prices st"
  using assms
  by (auto simp: generate_svm_prices_def path_of_def np_arange1_def
      split: option.splits sum.splits prod.splits)

lemma length_upto1: "length [1..Tn] = nat Tn"
  by simp

lemma svm_run_inv:
  assumes run: "svm_run a g = (Inr (st, v), g')"
  shows "svm_inv a (dt_intra a) (svm_Z1 a g) (svm_Z2 a g) (total_steps a)
           (nat (steps_per_day a)) (total_steps a) (st, v)"
proof -
  consider (ok) "0 < steps_per_day a" "0 \<le> T a"
    | (empty) "T a = 0" "st = init_state [S0 a]" "v = [v0 a]"
    using svm_run_Inr[OF run] by blast
  then show ?thesis
  proof cases
    case ok
    then show ?thesis using svm_run_ok[OF ok, of g] run by auto
  next
    case empty
    then show ?thesis
      by (simp add: svm_inv_def bar_inv_def total_steps_def init_state_def)
  qed
qed

lemma svm_run_bars:
  assumes run: "svm_run a g = (Inr (st, v), g')"
  shows "length (open_prices st) = nat (T a) \<and> length (close_prices st) = nat (T a)
       \<and> length (high_prices st) = nat (T a) \<and> length (low_prices st) = nat (T a)
       \<and> (\<forall>i < nat (T a). low_prices st ! i \<le> close_prices st ! i
                       \<and> close_prices st ! i \<le> high_prices st ! i)
       \<and> (0 < T a \<longrightarrow> open_prices st ! 0 = S0 a)
       \<and> (\<forall>i. Suc i < nat (T a) \<longrightarrow> open_prices st ! Suc i = close_prices st ! i)"
proof -
  consider (ok) "0 < steps_per_day a" "0 \<le> T a"
    | (empty) "T a = 0" "st = init_state [S0 a]" "v = [v0 a]"
    using svm_run_Inr[OF run] by blast
  then show ?thesis
  proof cases
    case ok
    have inv: "bar_inv (total_steps a) (nat (steps_per_day a)) (total_steps a) st"
      and z: "S_arr st ! 0 = S0 a"
      using svm_run_inv[OF run] by (simp_all add: svm_inv_def)
    have k: "total_steps a = nat (T a) * nat (steps_per_day a)"
      using ok by (simp add: total_steps_def nat_mult_distrib)
    have inv': "bar_inv (total_steps a) (nat (steps_per_day a))
                  (nat (T a) * nat (steps_per_day a)) st"
      using inv k by simp
    have p: "0 < nat (steps_per_day a)" using ok by simp
    show ?thesis
      using bar_inv_final(1-4)[OF inv' p] bar_inv_close_between[OF inv' p]
        bar_inv_open_chain[OF inv' p] bar_inv_open_first[OF inv' p] z
      by auto
  next
    case empty
    then show ?thesis by (simp add: init_state_def)
  qed
qed

lemma svm_Z1_nth: "t < total_steps a \<Longrightarrow> svm_Z1 a g ! t = g t"
  by (simp add: svm_Z1_def)

lemma svm_run_rec:
  assumes run: "svm_run a g = (Inr (st, v), g')" and t: "t < total_steps a"
  shows "v ! Suc t = variance_next a (dt_intra a) (svm_Z2 a g ! t) (v ! t)"
    and "S_arr st ! Suc t = price_next a (dt_intra a) t (g t) (v ! t) (S_arr st ! t)"
  using svm_run_inv[OF run] t by (simp_all add: svm_inv_def svm_Z1_nth)



lemma drift_today_spec: "drift_today a (int t) = bubble_drift_spec a t"
  by (auto simp: drift_today_def bubble_drift_spec_def Let_def split: option.splits)

section \<open>Lemmas about the chainer\<close>

lemma collect_intervals_Cons_Inr:
  assumes "collect_intervals L idx (c # ivs) = Inr cfgs"
  shows "valid_interval L c \<and> (\<exists>cs. collect_intervals L (Suc idx) ivs = Inr cs \<and> cfgs = c # cs)"
  using assms
  by (auto simp: ebind_Inr_iff valid_interval_def
      split: sum.splits py_error.splits if_splits prod.splits)

lemma collect_intervals_Inr:
  "collect_intervals L idx ivs = Inr cfgs \<Longrightarrow> cfgs = ivs \<and> (\<forall>c \<in> set ivs. valid_interval L c)"
proof (induction ivs arbitrary: idx cfgs)
  case Nil
  then show ?case by simp
next
  case (Cons c ivs)
  obtain cs where v: "valid_interval L c" and r: "collect_intervals L (Suc idx) ivs = Inr cs"
    and eq: "cfgs = c # cs"
    using collect_intervals_Cons_Inr[OF Cons.prems] by blast
  show ?case using Cons.IH[OF r] v eq by simp
qed

lemma collect_intervals_not_Plot:
  "collect_intervals L idx ivs = Inl out \<Longrightarrow> out \<noteq> Plot ds cl"
proof (induction ivs arbitrary: idx)
  case Nil
  then show ?case by simp
next
  case (Cons c ivs)
  then show ?case
    by (auto split: sum.splits py_error.splits if_splits prod.splits)
qed

lemma collect_intervals_first_invalid:
  assumes "k < length ivs" and "\<forall>j<k. valid_interval L (ivs ! j)"
    and "py_int L (cfg_start (ivs ! k)) = Inr s" and "py_int L (cfg_end (ivs ! k)) = Inr e"
    and "e \<le> s"
  shows "collect_intervals L idx ivs = Inl (ShowError (StartDayError (idx + k)))"
  using assms
proof (induction ivs arbitrary: idx k)
  case Nil
  then show ?case by simp
next
  case (Cons c ivs)
  show ?case
  proof (cases k)
    case 0
    then show ?thesis using Cons.prems by simp
  next
    case (Suc k')
    have v: "valid_interval L c" using Cons.prems(2) Suc by auto
    have "collect_intervals L (Suc idx) ivs = Inl (ShowError (StartDayError (Suc idx + k')))"
      using Cons.prems Suc by (intro Cons.IH) auto
    then show ?thesis using v Suc
      by (auto simp: valid_interval_def split: sum.splits prod.splits)
  qed
qed

lemma collect_intervals_some_invalid:
  assumes "k < length ivs"
    and "py_int L (cfg_start (ivs ! k)) = Inr s" and "py_int L (cfg_end (ivs ! k)) = Inr e"
    and "e \<le> s"
  shows "\<exists>out. collect_intervals L idx ivs = Inl out"
proof (rule ccontr)
  assume "\<not> (\<exists>out. collect_intervals L idx ivs = Inl out)"
  then obtain cfgs where "collect_intervals L idx ivs = Inr cfgs"
    by (cases "collect_intervals L idx ivs") auto
  then have "valid_interval L (ivs ! k)"
    using collect_intervals_Inr assms(1) by (metis nth_mem)
  then show False using assms by (simp add: valid_interval_def)
qed

lemma run_simulation_unchanged:
  assumes "run_simulation L self g = (out, self', g')" and "\<forall>ds cl. out \<noteq> Plot ds cl"
  shows "self' = self"
  using assms
  by (auto simp: run_simulation_def split: sum.splits prod.splits)

lemma gbm_arguments_Inr:
  assumes "gbm_arguments L params lp T' dt' = Inr c"
  shows "call_T c = T' \<and> (\<forall>p. lp = Some p \<longrightarrow> call_S0 c = p)"
  using assms by (auto simp: gbm_arguments_def ebind_Inr_iff)

lemma svm_arguments_Inr:
  assumes "svm_arguments L params lp T' dt' = Inr c"
  shows "call_T c = T' \<and> (\<forall>p. lp = Some p \<longrightarrow> call_S0 c = p)"
  using assms by (auto simp: svm_arguments_def ebind_Inr_iff)

lemma interval_call_Inr:
  assumes "interval_call L i icfg lp = Inr (Inr (T', c))"
  shows "0 < T' \<and> T' = interval_length L icfg \<and> call_T c = T'
       \<and> (\<forall>p. lp = Some p \<longrightarrow> call_S0 c = p)"
proof -
  obtain s e d where s: "py_int L (cfg_start icfg) = Inr s" and e: "py_int L (cfg_end icfg) = Inr e"
    and T: "T' = e - s" "0 < e - s"
    and c: "gbm_arguments L (cfg_params icfg) lp T' d = Inr c
          \<or> svm_arguments L (cfg_params icfg) lp T' d = Inr c"
    using assms
    by (auto simp: interval_call_def Let_def ebind_Inr_iff split: if_splits)
  have "interval_length L icfg = e - s" using s e by (simp add: interval_length_def)
  then show ?thesis using T c gbm_arguments_Inr svm_arguments_Inr by metis
qed

lemma run_call_path:
  assumes "run_call L c g = (Inr (days, os, cls, hs, ls), g')"
  shows "days = [1..call_T c] \<and> length os = nat (call_T c) \<and> length cls = nat (call_T c)
       \<and> length hs = nat (call_T c) \<and> length ls = nat (call_T c)
       \<and> (0 < call_T c \<longrightarrow> os ! 0 = call_S0 c)
       \<and> (\<forall>i. Suc i < nat (call_T c) \<longrightarrow> os ! Suc i = cls ! i)"
proof (cases c)
  case (CallGBM T' dt' S0' mu' sigma')
  then have "generate_gbm_prices L T' dt' S0' mu' sigma' 4 None g = (Inr (days, os, cls, hs, ls), g')"
    using assms by (simp add: run_call_def)
  then obtain st g1 where "gbm_run T' dt' S0' mu' sigma' 4 g1 = (Inr st, g')" and "days = [1..T']"
    and "os = open_prices st" "cls = close_prices st" "hs = high_prices st" "ls = low_prices st"
    using generate_gbm_prices_Inr by blast
  then show ?thesis using gbm_run_bars[of T' dt' S0' mu' sigma' 4 g1 st g'] CallGBM by simp
next
  case (CallSVM a)
  then have "generate_svm_prices L a g = (Inr (days, os, cls, hs, ls), g')"
    using assms by (simp add: run_call_def)
  then obtain st v g1 where "svm_run a g1 = (Inr (st, v), g')" and "days = [1..T a]"
    and "os = open_prices st" "cls = close_prices st" "hs = high_prices st" "ls = low_prices st"
    using generate_svm_prices_Inr by blast
  then show ?thesis using svm_run_bars[of a g1 st v g'] CallSVM by simp
qed

lemma py_get_last: "py_get xs (- 1) = Inr x \<Longrightarrow> xs \<noteq> [] \<and> x = last xs"
proof -
  assume a: "py_get xs (- 1) = Inr x"
  then have ne: "xs \<noteq> []" by (auto simp: py_get_def py_index_def split: if_splits)
  have idx: "nat (int (length xs) - 1) = length xs - 1" by simp
  have "x = xs ! (length xs - 1)"
    using a ne by (auto simp: py_get_def py_index_def idx simp del: One_nat_def split: if_splits)
  then show ?thesis using ne by (simp add: last_conv_nth)
qed

lemma chain_step_Inr:
  assumes "chain_step L i icfg cs g = (Inr cs', g')"
  shows "\<exists>T' c days os cls hs ls.
           interval_call L i icfg (last_price cs) = Inr (Inr (T', c))
         \<and> run_call L c g = (Inr (days, os, cls, hs, ls), g')
         \<and> cls \<noteq> []
         \<and> cs' = cs\<lparr>overall_days := overall_days cs @ map (\<lambda>d. d + current_offset cs) days,
                     overall_open := overall_open cs @ os,
                     overall_close := overall_close cs @ cls,
                     overall_high := overall_high cs @ hs,
                     overall_low := overall_low cs @ ls,
                     last_price := Some (last cls),
                     current_offset := current_offset cs + T'\<rparr>"
  using assms
  by (auto simp: chain_step_def split: sum.splits py_error.splits prod.splits dest!: py_get_last)

lemma chain_step_not_Plot:
  "chain_step L i icfg cs g = (Inl out, g') \<Longrightarrow> out \<noteq> Plot ds cl"
  by (auto simp: chain_step_def split: sum.splits py_error.splits prod.splits)

lemma chain_not_Plot:
  "chain L i cfgs cs g = (Inl out, g') \<Longrightarrow> out \<noteq> Plot ds cl"
proof (induction cfgs arbitrary: i cs g)
  case Nil
  then show ?case by simp
next
  case (Cons c cfgs)
  then show ?case
    by (auto split: sum.splits prod.splits dest: chain_step_not_Plot)
qed

lemma upto_shift: "map (\<lambda>d. d + k) [1..n] = [k + 1..k + n]"
proof (cases "0 \<le> n")
  case True
  then show ?thesis
  proof (induction n rule: int_ge_induct)
    case base
    then show ?case by simp
  next
    case (step m)
    have "[1..m + 1] = [1..m] @ [m + 1]" using step.hyps upto_rec2[of 1 "m + 1"] by simp
    moreover have "[k + 1..k + (m + 1)] = [k + 1..k + m] @ [k + m + 1]"
      using step.hyps upto_rec2[of "k + 1" "k + (m + 1)"] by (simp add: add.assoc)
    ultimately show ?case using step.IH by simp
  qed
next
  case False
  then show ?thesis by simp
qed

lemma upto_append: "0 \<le> k \<Longrightarrow> 0 \<le> n \<Longrightarrow> [1..k] @ [k + 1..k + n] = [1..k + n]"
  using upto_split2[of 1 k "k + n"] by (cases "k = 0") (auto simp: upto_rec1)

lemma chain_step_inv:
  assumes step: "chain_step L i icfg cs g = (Inr cs', g')" and inv: "chain_inv cs"
  shows "chain_inv cs' \<and> 0 < interval_length L icfg
       \<and> current_offset cs' = current_offset cs + interval_length L icfg"
proof -
  obtain T' c days os cls hs ls where
    ic: "interval_call L i icfg (last_price cs) = Inr (Inr (T', c))"
    and rc: "run_call L c g = (Inr (days, os, cls, hs, ls), g')"
    and ne: "cls \<noteq> []"
    and cs': "cs' = cs\<lparr>overall_days := overall_days cs @ map (\<lambda>d. d + current_offset cs) days,
                     overall_open := overall_open cs @ os,
                     overall_close := overall_close cs @ cls,
                     overall_high := overall_high cs @ hs,
                     overall_low := overall_low cs @ ls,
                     last_price := Some (last cls),
                     current_offset := current_offset cs + T'\<rparr>"
    using chain_step_Inr[OF step] by blast
  have T: "0 < T'" "T' = interval_length L icfg" "call_T c = T'"
    and lp: "\<And>p. last_price cs = Some p \<Longrightarrow> call_S0 c = p"
    using interval_call_Inr[OF ic] by auto
  have p: "days = [1..T']" "length os = nat T'" "length cls = nat T'" "length hs = nat T'"
    "length ls = nat T'" "os ! 0 = call_S0 c"
    and ch: "\<And>i. Suc i < nat T' \<Longrightarrow> os ! Suc i = cls ! i"
    using run_call_path[OF rc] T by auto
  let ?k = "current_offset cs"
  have k0: "0 \<le> ?k" and d: "overall_days cs = [1..?k]"
    and lo: "length (overall_open cs) = nat ?k" and lc: "length (overall_close cs) = nat ?k"
    and lh: "length (overall_high cs) = nat ?k" and ll: "length (overall_low cs) = nat ?k"
    and l: "last_price cs = (if overall_close cs = [] then None else Some (last (overall_close cs)))"
    and cont: "\<And>j. Suc j < nat ?k \<Longrightarrow> overall_open cs ! Suc j = overall_close cs ! j"
    using inv by (auto simp: chain_inv_def)
  have days': "overall_days cs @ map (\<lambda>d. d + ?k) days = [1..?k + T']"
    using d p(1) upto_shift[of ?k T'] upto_append[of ?k T'] k0 T(1) by simp
  have nat_add: "nat (?k + T') = nat ?k + nat T'" using k0 T(1) by (simp add: nat_add_distrib)
  have cont': "(overall_open cs @ os) ! Suc j = (overall_close cs @ cls) ! j"
    if j: "Suc j < nat ?k + nat T'" for j
  proof -
    consider (old) "Suc j < nat ?k" | (boundary) "Suc j = nat ?k" | (new) "nat ?k < Suc j"
      by linarith
    then show ?thesis
    proof cases
      case old
      then show ?thesis using cont[of j] lo lc by (simp add: nth_append)
    next
      case boundary
      then have nonempty: "overall_close cs \<noteq> []" using lc by auto
      then have "last_price cs = Some (last (overall_close cs))" using l by simp
      then have "call_S0 c = last (overall_close cs)" using lp by simp
      moreover have "last (overall_close cs) = overall_close cs ! j"
      proof -
        have "length (overall_close cs) - 1 = j" using boundary lc by linarith
        then show ?thesis using nonempty by (simp add: last_conv_nth)
      qed
      moreover have "(overall_open cs @ os) ! Suc j = os ! 0"
        using boundary lo by (simp add: nth_append)
      moreover have "(overall_close cs @ cls) ! j = overall_close cs ! j"
        using boundary lc by (simp add: nth_append)
      ultimately show ?thesis using p(6) by simp
    next
      case new
      then obtain m where m: "j = nat ?k + m" by (metis less_Suc_eq_le le_Suc_ex)
      then have "Suc m < nat T'" using j by simp
      then have "os ! Suc m = cls ! m" by (rule ch)
      moreover have "(overall_open cs @ os) ! Suc j = os ! Suc m"
        using m lo by (simp add: nth_append)
      moreover have "(overall_close cs @ cls) ! j = cls ! m"
        using m lc by (simp add: nth_append)
      ultimately show ?thesis by simp
    qed
  qed
  have "chain_inv cs'"
    unfolding chain_inv_def cs'
    using k0 T(1) days' lo lc lh ll p ne cont' by (simp add: nat_add)
  then show ?thesis using T cs' by simp
qed

lemma chain_inv_result:
  assumes "chain L i cfgs cs g = (Inr cs', g')" and "chain_inv cs"
  shows "chain_inv cs' \<and> (\<forall>c \<in> set cfgs. 0 < interval_length L c)
       \<and> current_offset cs' = current_offset cs + sum_list (map (interval_length L) cfgs)"
  using assms
proof (induction cfgs arbitrary: i cs g)
  case Nil
  then show ?case by simp
next
  case (Cons c cfgs)
  then obtain cs1 g1 where s: "chain_step L i c cs g = (Inr cs1, g1)"
    and r: "chain L (Suc i) cfgs cs1 g1 = (Inr cs', g')"
    by (auto split: sum.splits prod.splits)
  have i1: "chain_inv cs1" and pos: "0 < interval_length L c"
    and off: "current_offset cs1 = current_offset cs + interval_length L c"
    using chain_step_inv[OF s Cons.prems(2)] by auto
  show ?case using Cons.IH[OF r i1] pos off by simp
qed

lemma chain_inv_init: "chain_inv chain_init"
  by (simp add: chain_inv_def chain_init_def)

lemma sort_keys_length: "sort_keys L cfgs = Inr ks \<Longrightarrow> length ks = length cfgs"
proof (induction cfgs arbitrary: ks)
  case Nil
  then show ?case by simp
next
  case (Cons c cfgs)
  then show ?case by (auto simp: ebind_Inr_iff)
qed

lemma sort_intervals_mset:
  assumes "sort_intervals L cfgs = Inr scfgs"
  shows "mset scfgs = mset cfgs"
proof -
  obtain ks where k: "sort_keys L cfgs = Inr ks"
    and s: "scfgs = map snd (sort_key fst (zip ks cfgs))"
    using assms by (auto simp: sort_intervals_def ebind_Inr_iff)
  have "mset scfgs = image_mset snd (mset (zip ks cfgs))" using s by simp
  also have "\<dots> = mset (map snd (zip ks cfgs))" by simp
  also have "\<dots> = mset cfgs" using sort_keys_length[OF k] by simp
  finally show ?thesis .
qed

lemma sum_list_mset_cong:
  fixes f :: "'a \<Rightarrow> int"
  assumes "mset xs = mset ys"
  shows "sum_list (map f xs) = sum_list (map f ys)"
proof -
  have "sum_list (map f xs) = sum_mset (image_mset f (mset xs))"
    by (metis mset_map sum_mset_sum_list)
  also have "\<dots> = sum_mset (image_mset f (mset ys))" using assms by simp
  also have "\<dots> = sum_list (map f ys)" by (metis mset_map sum_mset_sum_list)
  finally show ?thesis .
qed

lemma run_simulation_Plot:
  assumes "run_simulation L self g = (Plot ds cl, self', g')"
  shows "\<exists>scfgs cs. sort_intervals L (model_intervals self) = Inr scfgs
           \<and> (\<forall>c \<in> set (model_intervals self). valid_interval L c)
           \<and> chain L 1 scfgs chain_init g = (Inr cs, g')
           \<and> ds = overall_days cs \<and> cl = overall_close cs
           \<and> self' = self\<lparr>simulation_results :=
                            Some \<lparr>Day = overall_days cs, Open = overall_open cs,
                                  Close = overall_close cs, High = overall_high cs,
                                  Low = overall_low cs\<rparr>\<rparr>"
proof -
  obtain cfgs where c: "collect_intervals L 1 (model_intervals self) = Inr cfgs"
    using assms collect_intervals_not_Plot
    by (cases "collect_intervals L 1 (model_intervals self)")
      (auto simp: run_simulation_def)
  have eq: "cfgs = model_intervals self" and v: "\<forall>c \<in> set (model_intervals self). valid_interval L c"
    using collect_intervals_Inr[OF c] by auto
  obtain scfgs where s: "sort_intervals L cfgs = Inr scfgs"
    using assms c by (cases "sort_intervals L cfgs") (auto simp: run_simulation_def)
  obtain r g1 where ch: "chain L 1 scfgs chain_init g = (r, g1)"
    by (cases "chain L 1 scfgs chain_init g")
  show ?thesis
  proof (cases r)
    case (Inl out)
    then show ?thesis using assms c s ch chain_not_Plot[of L 1 scfgs chain_init g out g1]
      by (auto simp: run_simulation_def)
  next
    case (Inr cs)
    then show ?thesis using assms c s ch eq v by (auto simp: run_simulation_def)
  qed
qed

lemma sum_list_pos_int:
  fixes xs :: "int list"
  shows "xs \<noteq> [] \<Longrightarrow> \<forall>x \<in> set xs. 0 < x \<Longrightarrow> 0 < sum_list xs"
proof (induction xs)
  case Nil
  then show ?case by simp
next
  case (Cons x xs)
  show ?case
  proof (cases "xs = []")
    case True
    then show ?thesis using Cons.prems by simp
  next
    case False
    then have "0 < sum_list xs" using Cons by simp
    then show ?thesis using Cons.prems by simp
  qed
qed

lemma sum_take_bounds:
  fixes f :: "'a \<Rightarrow> int"
  assumes pos: "\<forall>c \<in> set xs. 0 < f c" and k: "0 < k" "k < length xs"
  shows "0 < sum_list (map f (take k xs))"
    and "sum_list (map f (take k xs)) < sum_list (map f xs)"
proof -
  have a: "map f (take k xs) \<noteq> []" using k by auto
  have b: "\<forall>x \<in> set (map f (take k xs)). 0 < x" using pos by (auto dest: in_set_takeD)
  show "0 < sum_list (map f (take k xs))" using sum_list_pos_int[OF a b] .
  have c: "map f (drop k xs) \<noteq> []" using k by auto
  have d: "\<forall>x \<in> set (map f (drop k xs)). 0 < x" using pos by (auto dest: in_set_dropD)
  have "sum_list (map f xs) = sum_list (map f (take k xs)) + sum_list (map f (drop k xs))"
    by (metis append_take_drop_id map_append sum_list_append)
  then show "sum_list (map f (take k xs)) < sum_list (map f xs)"
    using sum_list_pos_int[OF c d] by simp
qed


section \<open>Runs on concrete inputs\<close>

lemmas run_defs =
  generate_gbm_prices_def gbm_run_def generate_svm_prices_def svm_run_def svm_step_def
  update_variance_def update_price_def crash_event_def drift_today_def np_random_normal_def
  np_zeros_def py_set_def py_get_def py_index_def init_state_def gbm_step_def end_of_day_def
  np_max_def np_min_def path_of_def np_arange1_def rng_drop_def upto.simps Let_def


lemma svm_demo_run:
  "svm_run svm_demo (\<lambda>_. 0)
     = (Inr (\<lparr>S_arr = [100, 100, 50, 50 * exp 1, 50 * exp 1 * exp 1], day_prices = [],
              open_prices = [100, 50], close_prices = [50, 50 * exp 1 * exp 1],
              high_prices = [100, 50 * exp 1 * exp 1], low_prices = [50, 50 * exp 1]\<rparr>,
             [0, 0, 0, 0, 0]),
        \<lambda>k. 0)"
  by (simp add: svm_demo_def run_defs eval_nat_numeral)

lemma svm_demo_path:
  "generate_svm_prices plain_python svm_demo (\<lambda>_. 0)
     = (Inr ([1, 2], [100, 50], [50, 50 * exp 1 * exp 1], [100, 50 * exp 1 * exp 1],
             [50, 50 * exp 1]),
        \<lambda>k. 0)"
proof -
  have "seed svm_demo = None" and "T svm_demo = 2" by (simp_all add: svm_demo_def)
  then show ?thesis
    by (simp add: generate_svm_prices_def svm_demo_run path_of_def np_arange1_def upto.simps)
qed

lemmas literal_defs =
  plain_python_def literal_int_def literal_float_def literal_Fraction_def int_literal_def
  nat_literal_def decimal_literal_def digit_of_def quoted_def
  of_rat_divide of_rat_minus of_rat_add of_rat_mult of_rat_power



lemmas ui_defs =
  run_simulation_def sort_intervals_def chain_step_def interval_call_def gbm_arguments_def
  svm_arguments_def run_call_def params_get_def chain_init_def parse_float_def bubble_extra_key_def

lemma demo_gui_run:
  "run_simulation plain_python demo_gui one_then_zero
     = (Plot [1, 2] [100 * exp 1, 100 * exp 1],
        demo_gui\<lparr>simulation_results := Some demo_series\<rparr>, \<lambda>k. 0)"
  by (simp add: demo_gui_def demo_series_def gbm_cfg_def one_then_zero_def
      ui_defs literal_defs run_defs)


lemma interval_length_gbm_cfg:
  "interval_length plain_python (gbm_cfg ''1'' ''2'' ''100'') = 1"
  "interval_length plain_python (gbm_cfg ''2'' ''3'' ''50'') = 1"
  by (simp_all add: interval_length_def gbm_cfg_def literal_defs)

lemma demo_gui_sorted:
  "sort_intervals plain_python (model_intervals demo_gui)
     = Inr [gbm_cfg ''1'' ''2'' ''100'', gbm_cfg ''2'' ''3'' ''50'']"
  by (simp add: demo_gui_def sort_intervals_def gbm_cfg_def literal_defs)


lemma equal_days_gui_facts:
  "1 < length (model_intervals equal_days_gui)"
  "py_int plain_python (cfg_start (model_intervals equal_days_gui ! 1)) = Inr 50"
  "py_int plain_python (cfg_end (model_intervals equal_days_gui ! 1)) = Inr 50"
  "\<forall>j<1. valid_interval plain_python (model_intervals equal_days_gui ! j)"
  by (simp_all add: equal_days_gui_def gbm_cfg_def valid_interval_def literal_defs)

section \<open>The properties of the generators\<close>




text \<open>
  C10. In a path returned by either generator with initial price \<open>s0\<close>, day 1 opens at
  \<open>s0\<close> and every later day opens at the close of the day before. The crash of the
  stochastic-volatility generator is part of the close it adjusts, so the next day opens
  at the adjusted price.
\<close>

theorem open_is_previous_close:
  assumes "generate_gbm_prices L Tn d s0 m s sp sd g = (Inr (days, os, cs, hs, ls), g')
         \<or> (generate_svm_prices L a g = (Inr (days, os, cs, hs, ls), g') \<and> S0 a = s0)"
  shows "length os = length days \<and> length cs = length days
       \<and> (0 < length days \<longrightarrow> os ! 0 = s0)
       \<and> (\<forall>i. Suc i < length days \<longrightarrow> os ! Suc i = cs ! i)"
  using assms
proof
  assume "generate_gbm_prices L Tn d s0 m s sp sd g = (Inr (days, os, cs, hs, ls), g')"
  then obtain st g1 where "gbm_run Tn d s0 m s sp g1 = (Inr st, g')" and "days = [1..Tn]"
    and "os = open_prices st" "cs = close_prices st" "hs = high_prices st" "ls = low_prices st"
    using generate_gbm_prices_Inr by blast
  then show ?thesis using gbm_run_bars[of Tn d s0 m s sp g1 st g'] by simp
next
  assume "generate_svm_prices L a g = (Inr (days, os, cs, hs, ls), g') \<and> S0 a = s0"
  then obtain st v g1 where "svm_run a g1 = (Inr (st, v), g')" and "days = [1..T a]"
    and "os = open_prices st" "cs = close_prices st" "hs = high_prices st" "ls = low_prices st"
    and "S0 a = s0"
    using generate_svm_prices_Inr by blast
  then show ?thesis using svm_run_bars[of a g1 st v g'] by simp
qed

theorem open_is_previous_close_witness:
  "generate_svm_prices plain_python svm_demo (\<lambda>_. 0)
     = (Inr ([1, 2], [100, 50], [50, 50 * exp 1 * exp 1], [100, 50 * exp 1 * exp 1],
             [50, 50 * exp 1]),
        \<lambda>k. 0)
   \<and> S0 svm_demo = 100
   \<and> [100, 50 :: real] ! 0 = 100
   \<and> [100, 50] ! Suc 0 = [50, 50 * exp 1 * exp 1 :: real] ! 0"
proof -
  have s0: "S0 svm_demo = 100" by (simp add: svm_demo_def)
  have "(0 < length [1, 2 :: int] \<longrightarrow> [100, 50 :: real] ! 0 = 100)
      \<and> (\<forall>i. Suc i < length [1, 2 :: int]
              \<longrightarrow> [100, 50] ! Suc i = [50, 50 * exp 1 * exp 1 :: real] ! i)"
    using open_is_previous_close[OF disjI2[OF conjI[OF svm_demo_path s0]]] by blast
  then have "[100, 50 :: real] ! 0 = 100"
    and "[100, 50] ! Suc 0 = [50, 50 * exp 1 * exp 1 :: real] ! 0"
    by simp_all
  then show ?thesis using svm_demo_path s0 by blast
qed

text \<open>
  C3. With \<open>crash_day\<close> and \<open>crash_factor\<close> both set, the price written at sub-step \<open>t\<close> is
  the diffused price times \<open>crash_factor\<close> when \<open>t + 1 = crash_day * steps_per_day\<close> and the
  diffused price itself at every other sub-step; at most one sub-step meets the
  condition; when \<open>crash_day\<close> is a day of the interval, that sub-step is the last of the
  day, and the day's close is the adjusted price and its high and low are taken over
  prices that contain it; when no sub-step meets the condition, no price is adjusted.
  \<open>generate_svm_prices\<close> returns the bars of the state of \<open>svm_run\<close>.
\<close>

theorem crash_applied_once:
  assumes run: "svm_run a g = (Inr (st, v), g')"
    and cd: "crash_day a = Some cd" and cf: "crash_factor a = Some cf"
  shows "(\<forall>t < total_steps a.
            S_arr st ! Suc t =
              (if int t + 1 = cd * steps_per_day a
               then diffused a (dt_intra a) t (g t) (v ! t) (S_arr st ! t) * cf
               else diffused a (dt_intra a) t (g t) (v ! t) (S_arr st ! t)))
       \<and> (\<forall>t u. int t + 1 = cd * steps_per_day a \<and> int u + 1 = cd * steps_per_day a
                  \<longrightarrow> t = u)
       \<and> (1 \<le> cd \<and> cd \<le> T a \<longrightarrow>
            (let c = nat (cd * steps_per_day a); d = nat (cd - 1) in
               c - 1 < total_steps a \<and> int (c - 1) + 1 = cd * steps_per_day a
             \<and> close_prices st ! d = S_arr st ! c
             \<and> S_arr st ! c \<in> set (day_slice (S_arr st) (nat (steps_per_day a)) d)
             \<and> high_prices st ! d = Max (set (day_slice (S_arr st) (nat (steps_per_day a)) d))
             \<and> low_prices st ! d = Min (set (day_slice (S_arr st) (nat (steps_per_day a)) d))))
       \<and> ((\<forall>t < total_steps a. int t + 1 \<noteq> cd * steps_per_day a) \<longrightarrow>
            (\<forall>t < total_steps a.
               S_arr st ! Suc t = diffused a (dt_intra a) t (g t) (v ! t) (S_arr st ! t)))"
proof -
  have fires: "crash_fires a t \<longleftrightarrow> int t + 1 = cd * steps_per_day a" for t
    using cd cf by (simp add: crash_fires_def)
  have rec: "S_arr st ! Suc t =
              (if int t + 1 = cd * steps_per_day a
               then diffused a (dt_intra a) t (g t) (v ! t) (S_arr st ! t) * cf
               else diffused a (dt_intra a) t (g t) (v ! t) (S_arr st ! t))"
    if "t < total_steps a" for t
    using svm_run_rec(2)[OF run that] cf by (simp add: price_next_def fires)
  have bars: "(let c = nat (cd * steps_per_day a); d = nat (cd - 1) in
               c - 1 < total_steps a \<and> int (c - 1) + 1 = cd * steps_per_day a
             \<and> close_prices st ! d = S_arr st ! c
             \<and> S_arr st ! c \<in> set (day_slice (S_arr st) (nat (steps_per_day a)) d)
             \<and> high_prices st ! d = Max (set (day_slice (S_arr st) (nat (steps_per_day a)) d))
             \<and> low_prices st ! d = Min (set (day_slice (S_arr st) (nat (steps_per_day a)) d)))"
    if c1: "1 \<le> cd" and c2: "cd \<le> T a"
  proof -
    have Tpos: "0 < T a" using c1 c2 by simp
    then have ok: "0 < steps_per_day a" "0 \<le> T a"
      using svm_run_Inr[OF run] by auto
    let ?p = "nat (steps_per_day a)" and ?d = "nat (cd - 1)"
    have p: "0 < ?p" using ok by simp
    have inv: "bar_inv (total_steps a) ?p (total_steps a) st"
      using svm_run_inv[OF run] by (simp add: svm_inv_def)
    have k: "total_steps a = nat (T a) * ?p"
      using ok by (simp add: total_steps_def nat_mult_distrib)
    have inv': "bar_inv (total_steps a) ?p (nat (T a) * ?p) st" using inv k by simp
    have d: "?d < nat (T a)" using c1 c2 by simp
    have c: "nat (cd * steps_per_day a) = Suc ?d * ?p"
    proof -
      have "Suc ?d = nat cd" using c1 by simp
      then show ?thesis using c1 ok by (simp add: nat_mult_distrib del: mult_Suc)
    qed
    have pos: "1 \<le> cd * steps_per_day a" using c1 ok
      by (metis int_one_le_iff_zero_less less_le_trans mult_pos_pos zero_less_one)
    have le: "cd * steps_per_day a \<le> T a * steps_per_day a"
      using c2 ok by (simp add: mult_right_mono)
    have a1: "nat (cd * steps_per_day a) - 1 < total_steps a"
      using pos le by (simp add: total_steps_def)
    have a2: "int (nat (cd * steps_per_day a) - 1) + 1 = cd * steps_per_day a"
      using pos by simp
    show ?thesis
      unfolding Let_def c
      using a1 a2 bar_inv_final(6,7,8)[OF inv' p d] close_in_day_slice[OF p, of "S_arr st" ?d]
      by (simp add: c del: mult_Suc)
  qed
  show ?thesis using rec bars by auto
qed

theorem crash_applied_once_witness:
  "svm_run svm_demo (\<lambda>_. 0)
     = (Inr (\<lparr>S_arr = [100, 100, 50, 50 * exp 1, 50 * exp 1 * exp 1], day_prices = [],
              open_prices = [100, 50], close_prices = [50, 50 * exp 1 * exp 1],
              high_prices = [100, 50 * exp 1 * exp 1], low_prices = [50, 50 * exp 1]\<rparr>,
             [0, 0, 0, 0, 0]),
        \<lambda>k. 0)
   \<and> crash_day svm_demo = Some 1 \<and> crash_factor svm_demo = Some (1 / 2)
   \<and> [100, 100, 50, 50 * exp 1, 50 * exp 1 * exp 1] ! Suc 1
       = diffused svm_demo (dt_intra svm_demo) 1 0 ([0, 0, 0, 0, 0] ! 1)
           ([100, 100, 50, 50 * exp 1, 50 * exp 1 * exp 1] ! 1) * (1 / 2)
   \<and> [100, 100, 50, 50 * exp 1, 50 * exp 1 * exp 1] ! Suc 0
       = diffused svm_demo (dt_intra svm_demo) 0 0 ([0, 0, 0, 0, 0] ! 0)
           ([100, 100, 50, 50 * exp 1, 50 * exp 1 * exp 1] ! 0)"
proof -
  have cd: "crash_day svm_demo = Some 1" and cf: "crash_factor svm_demo = Some (1 / 2)"
    and sp: "steps_per_day svm_demo = 2" and n: "total_steps svm_demo = 4"
    by (simp_all add: svm_demo_def total_steps_def)
  let ?S = "[100, 100, 50, 50 * exp 1, 50 * exp 1 * exp 1 :: real]"
  let ?v = "[0, 0, 0, 0, 0 :: real]"
  have rec: "\<forall>t < total_steps svm_demo.
            ?S ! Suc t =
              (if int t + 1 = 1 * steps_per_day svm_demo
               then diffused svm_demo (dt_intra svm_demo) t 0 (?v ! t) (?S ! t) * (1 / 2)
               else diffused svm_demo (dt_intra svm_demo) t 0 (?v ! t) (?S ! t))"
    using crash_applied_once[OF svm_demo_run cd cf] by simp
  have "?S ! Suc 1 = diffused svm_demo (dt_intra svm_demo) 1 0 (?v ! 1) (?S ! 1) * (1 / 2)"
    using rec[rule_format, of 1] sp n by simp
  moreover have "?S ! Suc 0 = diffused svm_demo (dt_intra svm_demo) 0 0 (?v ! 0) (?S ! 0)"
    using rec[rule_format, of 0] sp n by simp
  ultimately show ?thesis using svm_demo_run cd cf by blast
qed

text \<open>
  C4. At every sub-step \<open>t\<close> the drift that the code uses is the one the specification
  states, and the price written is the previous price times the exponential of the
  log-Euler increment with that drift (times \<open>crash_factor\<close> when the crash fires there).
  When \<open>bubble_start\<close> or \<open>bubble_end\<close> is not supplied the drift is \<open>mu\<close>.
\<close>

theorem bubble_drift_applied:
  assumes run: "svm_run a g = (Inr (st, v), g')" and t: "t < total_steps a"
  shows "drift_today a (int t) = bubble_drift_spec a t
       \<and> S_arr st ! Suc t =
           S_arr st ! t * exp ((bubble_drift_spec a t - 0.5 * v ! t) * dt_intra a
                               + sqrt (max (v ! t) 0 * dt_intra a) * g t)
           * (if crash_fires a t then the (crash_factor a) else 1)
       \<and> (bubble_start a = None \<or> bubble_end a = None \<longrightarrow> drift_today a (int t) = mu a)"
proof -
  have "S_arr st ! Suc t =
           S_arr st ! t * exp ((bubble_drift_spec a t - 0.5 * v ! t) * dt_intra a
                               + sqrt (max (v ! t) 0 * dt_intra a) * g t)
           * (if crash_fires a t then the (crash_factor a) else 1)"
    using svm_run_rec(2)[OF run t]
    by (simp add: price_next_def diffused_def drift_today_spec)
  moreover have "drift_today a (int t) = mu a" if "bubble_start a = None \<or> bubble_end a = None"
    using that by (auto simp: drift_today_def Let_def)
  ultimately show ?thesis using drift_today_spec by blast
qed

theorem bubble_drift_applied_witness:
  "svm_run svm_demo (\<lambda>_. 0)
     = (Inr (\<lparr>S_arr = [100, 100, 50, 50 * exp 1, 50 * exp 1 * exp 1], day_prices = [],
              open_prices = [100, 50], close_prices = [50, 50 * exp 1 * exp 1],
              high_prices = [100, 50 * exp 1 * exp 1], low_prices = [50, 50 * exp 1]\<rparr>,
             [0, 0, 0, 0, 0]),
        \<lambda>k. 0)
   \<and> 2 < total_steps svm_demo
   \<and> drift_today svm_demo (int 2) = bubble_drift_spec svm_demo 2
   \<and> bubble_drift_spec svm_demo 2 = 1 \<and> bubble_drift_spec svm_demo 1 = 0"
proof -
  have t: "2 < total_steps svm_demo"
    by (simp add: svm_demo_def total_steps_def)
  have "drift_today svm_demo (int 2) = bubble_drift_spec svm_demo 2"
    using bubble_drift_applied[OF svm_demo_run t] by blast
  moreover have "bubble_drift_spec svm_demo 2 = 1" and "bubble_drift_spec svm_demo 1 = 0"
    by (simp_all add: bubble_drift_spec_def svm_demo_def)
  ultimately show ?thesis using svm_demo_run t by blast
qed



section \<open>The properties of the parser and the chainer\<close>

text \<open>
  C2. When a run over the intervals ends with the plot, then for every \<open>k\<close> with
  \<open>0 < k < N\<close> the first day of the \<open>(k+1)\<close>-th interval in sorted order, which stands at
  the position given by the total length of the \<open>k\<close> intervals before it, opens at the
  close of the day before it, the last day of the \<open>k\<close>-th interval. The call prepared
  for an interval takes the previous close as its initial price whenever there is one,
  whatever initial price the interval's own parameters give.
\<close>

theorem chained_open_is_previous_close:
  assumes run: "run_simulation L self g = (Plot ds cl, self', g')"
  shows "(\<exists>r scfgs. simulation_results self' = Some r
            \<and> sort_intervals L (model_intervals self) = Inr scfgs
            \<and> (\<forall>k. 0 < k \<and> k < length scfgs \<longrightarrow>
                 (let b = nat (sum_list (map (interval_length L) (take k scfgs))) in
                    0 < b \<and> b < length (Open r) \<and> Open r ! b = Close r ! (b - 1))))
       \<and> (\<forall>i icfg p T' c. interval_call L i icfg (Some p) = Inr (Inr (T', c)) \<longrightarrow> call_S0 c = p)"
proof -
  obtain scfgs cs where s: "sort_intervals L (model_intervals self) = Inr scfgs"
    and ch: "chain L 1 scfgs chain_init g = (Inr cs, g')"
    and self': "self' = self\<lparr>simulation_results :=
                            Some \<lparr>Day = overall_days cs, Open = overall_open cs,
                                  Close = overall_close cs, High = overall_high cs,
                                  Low = overall_low cs\<rparr>\<rparr>"
    using run_simulation_Plot[OF run] by blast
  have inv: "chain_inv cs" and pos: "\<forall>c \<in> set scfgs. 0 < interval_length L c"
    and off: "current_offset cs = sum_list (map (interval_length L) scfgs)"
    using chain_inv_result[OF ch chain_inv_init] by (simp_all add: chain_init_def)
  let ?r = "\<lparr>Day = overall_days cs, Open = overall_open cs, Close = overall_close cs,
             High = overall_high cs, Low = overall_low cs\<rparr>"
  have len: "length (overall_open cs) = nat (current_offset cs)"
    and cont: "\<And>j. Suc j < nat (current_offset cs) \<Longrightarrow> overall_open cs ! Suc j = overall_close cs ! j"
    using inv by (auto simp: chain_inv_def)
  have bnd: "(let b = nat (sum_list (map (interval_length L) (take k scfgs))) in
                    0 < b \<and> b < length (Open ?r) \<and> Open ?r ! b = Close ?r ! (b - 1))"
    if k: "0 < k \<and> k < length scfgs" for k
  proof -
    let ?b = "nat (sum_list (map (interval_length L) (take k scfgs)))"
    have b0: "0 < sum_list (map (interval_length L) (take k scfgs))"
      and b1: "sum_list (map (interval_length L) (take k scfgs)) < current_offset cs"
      using sum_take_bounds[OF pos, of k] k off by simp_all
    have p0: "0 < ?b" using b0 by simp
    have p1: "?b < nat (current_offset cs)" using b0 b1 by simp
    obtain j where j: "?b = Suc j" using p0 by (metis Suc_pred)
    have "overall_open cs ! Suc j = overall_close cs ! j" using cont[of j] p1 j by simp
    then show ?thesis using p0 p1 len j by (simp add: Let_def)
  qed
  have "simulation_results self' = Some ?r" using self' by simp
  then have first: "\<exists>r scfgs. simulation_results self' = Some r
            \<and> sort_intervals L (model_intervals self) = Inr scfgs
            \<and> (\<forall>k. 0 < k \<and> k < length scfgs \<longrightarrow>
                 (let b = nat (sum_list (map (interval_length L) (take k scfgs))) in
                    0 < b \<and> b < length (Open r) \<and> Open r ! b = Close r ! (b - 1)))"
    using s bnd by blast
  have "\<forall>i icfg p T' c. interval_call L i icfg (Some p) = Inr (Inr (T', c)) \<longrightarrow> call_S0 c = p"
    using interval_call_Inr by blast
  then show ?thesis using first by blast
qed

theorem chained_open_is_previous_close_witness:
  "run_simulation plain_python demo_gui one_then_zero
     = (Plot [1, 2] [100 * exp 1, 100 * exp 1],
        demo_gui\<lparr>simulation_results := Some demo_series\<rparr>, \<lambda>k. 0)
   \<and> sort_intervals plain_python (model_intervals demo_gui)
       = Inr [gbm_cfg ''1'' ''2'' ''100'', gbm_cfg ''2'' ''3'' ''50'']
   \<and> nat (sum_list (map (interval_length plain_python)
                      (take 1 [gbm_cfg ''1'' ''2'' ''100'', gbm_cfg ''2'' ''3'' ''50'']))) = 1
   \<and> Open demo_series ! 1 = Close demo_series ! (1 - 1)
   \<and> Open demo_series ! 1 = 100 * exp 1"
proof -
  let ?s = "[gbm_cfg ''1'' ''2'' ''100'', gbm_cfg ''2'' ''3'' ''50'']"
  have b: "nat (sum_list (map (interval_length plain_python) (take 1 ?s))) = 1"
    by (simp add: interval_length_gbm_cfg)
  obtain r scfgs where
    r: "simulation_results (demo_gui\<lparr>simulation_results := Some demo_series\<rparr>) = Some r"
    and s: "sort_intervals plain_python (model_intervals demo_gui) = Inr scfgs"
    and p: "\<forall>k. 0 < k \<and> k < length scfgs \<longrightarrow>
              (let b = nat (sum_list (map (interval_length plain_python) (take k scfgs))) in
                 0 < b \<and> b < length (Open r) \<and> Open r ! b = Close r ! (b - 1))"
    using chained_open_is_previous_close[OF demo_gui_run] by blast
  have r': "r = demo_series" using r by simp
  have s': "scfgs = ?s" using s demo_gui_sorted by simp
  have "Open demo_series ! 1 = Close demo_series ! (1 - 1)"
    using p[rule_format, of 1] b unfolding r' s' by (simp add: Let_def)
  moreover have "Open demo_series ! 1 = 100 * exp 1" by (simp add: demo_series_def)
  ultimately show ?thesis using demo_gui_run demo_gui_sorted b by blast
qed

text \<open>
  C6. When a run ends with the plot, the day series it stores and plots is
  \<open>1, 2, \<dots>, T\<^sub>1 + \<dots> + T\<^sub>N\<close> for the lengths \<open>T\<^sub>i = end_day - start_day\<close> of the
  intervals, all of which are valid, and the four value series are as long.
\<close>

theorem global_days_consecutive:
  assumes run: "run_simulation L self g = (Plot ds cl, self', g')"
  shows "\<exists>r. simulation_results self' = Some r \<and> Day r = ds
           \<and> Day r = [1..sum_list (map (interval_length L) (model_intervals self))]
           \<and> (\<forall>c \<in> set (model_intervals self). valid_interval L c \<and> 0 < interval_length L c)
           \<and> length (Open r) = length (Day r) \<and> length (Close r) = length (Day r)
           \<and> length (High r) = length (Day r) \<and> length (Low r) = length (Day r)"
proof -
  obtain scfgs cs where s: "sort_intervals L (model_intervals self) = Inr scfgs"
    and v: "\<forall>c \<in> set (model_intervals self). valid_interval L c"
    and ch: "chain L 1 scfgs chain_init g = (Inr cs, g')"
    and ds: "ds = overall_days cs"
    and self': "self' = self\<lparr>simulation_results :=
                            Some \<lparr>Day = overall_days cs, Open = overall_open cs,
                                  Close = overall_close cs, High = overall_high cs,
                                  Low = overall_low cs\<rparr>\<rparr>"
    using run_simulation_Plot[OF run] by blast
  have inv: "chain_inv cs" and pos: "\<forall>c \<in> set scfgs. 0 < interval_length L c"
    and off: "current_offset cs = sum_list (map (interval_length L) scfgs)"
    using chain_inv_result[OF ch chain_inv_init] by (simp_all add: chain_init_def)
  have ms: "mset scfgs = mset (model_intervals self)" using sort_intervals_mset[OF s] .
  then have set_eq: "set scfgs = set (model_intervals self)" by (metis set_mset_mset)
  have sum_eq: "sum_list (map (interval_length L) scfgs)
                  = sum_list (map (interval_length L) (model_intervals self))"
    using sum_list_mset_cong[OF ms] .
  let ?r = "\<lparr>Day = overall_days cs, Open = overall_open cs, Close = overall_close cs,
             High = overall_high cs, Low = overall_low cs\<rparr>"
  have "simulation_results self' = Some ?r" using self' by simp
  moreover have "Day ?r = ds" using ds by simp
  moreover have "Day ?r = [1..sum_list (map (interval_length L) (model_intervals self))]"
    using inv off sum_eq by (simp add: chain_inv_def)
  moreover have "\<forall>c \<in> set (model_intervals self). valid_interval L c \<and> 0 < interval_length L c"
    using v pos set_eq by simp
  moreover have "length (Open ?r) = length (Day ?r) \<and> length (Close ?r) = length (Day ?r)
           \<and> length (High ?r) = length (Day ?r) \<and> length (Low ?r) = length (Day ?r)"
    using inv by (simp add: chain_inv_def)
  ultimately show ?thesis by blast
qed

theorem global_days_consecutive_witness:
  "run_simulation plain_python demo_gui one_then_zero
     = (Plot [1, 2] [100 * exp 1, 100 * exp 1],
        demo_gui\<lparr>simulation_results := Some demo_series\<rparr>, \<lambda>k. 0)
   \<and> sum_list (map (interval_length plain_python) (model_intervals demo_gui)) = 2
   \<and> Day demo_series = [1..2]"
proof -
  have sum: "sum_list (map (interval_length plain_python) (model_intervals demo_gui)) = 2"
    by (simp add: demo_gui_def interval_length_gbm_cfg)
  obtain r where r: "simulation_results (demo_gui\<lparr>simulation_results := Some demo_series\<rparr>) = Some r"
    and d: "Day r = [1..sum_list (map (interval_length plain_python) (model_intervals demo_gui))]"
    using global_days_consecutive[OF demo_gui_run] by blast
  have "r = demo_series" using r by simp
  then show ?thesis using d sum demo_gui_run by simp
qed






text \<open>
  C9. When some interval has integer days with \<open>end_day \<le> start_day\<close>, the run leaves the
  application object and the random source as they were, so no generator ran and no
  draw was taken, and it does not end with a plot; when the intervals before it are
  valid, the run ends with the dialog "Interval k+1: Start day must be < End day.".
  Moreover no run that ends without the plot changes the stored results.
\<close>

theorem invalid_interval_aborts_chain:
  assumes k: "k < length (model_intervals self)"
    and s: "py_int L (cfg_start (model_intervals self ! k)) = Inr s"
    and e: "py_int L (cfg_end (model_intervals self ! k)) = Inr e"
    and le: "e \<le> s"
  shows "snd (run_simulation L self g) = (self, g)
       \<and> (\<forall>ds cl. fst (run_simulation L self g) \<noteq> Plot ds cl)
       \<and> ((\<forall>j<k. valid_interval L (model_intervals self ! j)) \<longrightarrow>
            run_simulation L self g = (ShowError (StartDayError (Suc k)), self, g))
       \<and> (\<forall>self1 g1 out self2 g2.
            run_simulation L self1 g1 = (out, self2, g2) \<and> (\<forall>ds cl. out \<noteq> Plot ds cl)
              \<longrightarrow> self2 = self1)"
proof -
  obtain out where c: "collect_intervals L 1 (model_intervals self) = Inl out"
    using collect_intervals_some_invalid[OF k s e le] by blast
  then have r: "run_simulation L self g = (out, self, g)"
    by (simp add: run_simulation_def)
  have np: "\<forall>ds cl. out \<noteq> Plot ds cl"
    using collect_intervals_not_Plot[OF c] by blast
  have first: "run_simulation L self g = (ShowError (StartDayError (Suc k)), self, g)"
    if "\<forall>j<k. valid_interval L (model_intervals self ! j)"
    using collect_intervals_first_invalid[OF k that s e le, of 1]
    by (simp add: run_simulation_def)
  show ?thesis using r np first run_simulation_unchanged by auto
qed

theorem invalid_interval_aborts_chain_witness:
  "1 < length (model_intervals equal_days_gui)
   \<and> py_int plain_python (cfg_start (model_intervals equal_days_gui ! 1)) = Inr 50
   \<and> py_int plain_python (cfg_end (model_intervals equal_days_gui ! 1)) = Inr 50
   \<and> (50::int) \<le> 50
   \<and> valid_interval plain_python (model_intervals equal_days_gui ! 0)
   \<and> run_simulation plain_python equal_days_gui one_then_zero
       = (ShowError (StartDayError 2), equal_days_gui, one_then_zero)"
proof -
  have le: "(50::int) \<le> 50" by simp
  have "run_simulation plain_python equal_days_gui one_then_zero
       = (ShowError (StartDayError (Suc 1)), equal_days_gui, one_then_zero)"
    using invalid_interval_aborts_chain[OF equal_days_gui_facts(1,2,3) le, of one_then_zero]
      equal_days_gui_facts(4)
    by blast
  then show ?thesis using equal_days_gui_facts le by simp
qed

end
